theory Spec2Isabelle
  imports Main "HOL-Library.Sublist"
begin

section \<open>Errors\<close>

text \<open>
  A Go \<open>error\<close> value. The three sentinels are the ones of the JSON reader
  (\<open>jsonparser.KeyPathNotFoundError\<close> and the two malformed-input errors); every other
  error (\<open>errors.New(msg)\<close>, a failure of an external collaborator) is identified by
  its message. \<open>Error\<close> is the method \<open>err.Error()\<close>.
\<close>

datatype error =
    KeyPathNotFoundError
  | MalformedObjectError
  | MalformedJsonError
  | Failure string

fun Error :: "error \<Rightarrow> string" where
  "Error KeyPathNotFoundError = ''Key path not found''"
| "Error MalformedObjectError = ''Value looks like object, but can't find closing '}' symbol''"
| "Error MalformedJsonError = ''Malformed JSON error''"
| "Error (Failure msg) = msg"

section \<open>The JSON listing as the reader sees it\<close>

text \<open>
  The output of \<open>npm ls --json\<close> is read with \<open>jsonparser\<close>, which works on the
  bytes of the document. The model keeps what that reader hands to the program: an
  object is the sequence of its members in document order (\<open>ObjectEach\<close> visits them in
  that order), a string is the bytes between its quotes (\<open>Get\<close> strips the quotes and
  does not unescape), and any other value (number, boolean, null, array) is its raw
  text. \<open>Get data k1 k2\<close> descends by keys and takes the first member with a given
  key; it answers \<open>KeyPathNotFoundError\<close> when a key is missing or the value on the way
  is not an object. The model agrees with the reader on documents whose objects have
  no repeated key, which is what \<open>npm ls\<close> prints.
\<close>

datatype json =
    JObject "(string \<times> json) list"
  | JString string
  | JOther string

definition dquote :: char where
  "dquote = CHR 0x22"

text \<open>
  The bytes \<open>Get\<close> returns for a value. For an object the reader returns the text of
  the object as it stands in the document; the model renders it without white space.
\<close>

fun rawText :: "json \<Rightarrow> string" where
  "rawText (JString s) = s"
| "rawText (JOther s) = s"
| "rawText (JObject ms) =
     ''{'' @ concat (map (\<lambda>(k, v). dquote # k @ dquote # '':'' @ rawText v @ '','') ms) @ ''}''"

fun Get :: "json \<Rightarrow> string list \<Rightarrow> error + json" where
  "Get v [] = Inr v"
| "Get (JObject ms) (k # ks) =
     (case map_of ms k of
        None \<Rightarrow> Inl KeyPathNotFoundError
      | Some v \<Rightarrow> Get v ks)"
| "Get v (k # ks) = Inl KeyPathNotFoundError"

text \<open>
  \<open>ObjectEach\<close> on the bytes of a value that is not an object: the reader skips white
  space, wants an opening brace, skips white space again and stops with success at a
  closing brace. The content of a JSON string holds no unescaped quote, so the only
  string contents that pass are those that read \<open>{ }\<close>; everything else is malformed.
\<close>

definition isBlank :: "char \<Rightarrow> bool" where
  "isBlank c = (c = CHR 0x20 \<or> c = CHR 0x0A \<or> c = CHR 0x0D \<or> c = CHR 0x09)"

definition scanEmptyObject :: "string \<Rightarrow> error + (string \<times> json) list" where
  "scanEmptyObject s =
     (case dropWhile isBlank s of
        [] \<Rightarrow> Inl MalformedObjectError
      | c # r \<Rightarrow>
          if c \<noteq> CHR ''{'' then Inl MalformedObjectError
          else (case dropWhile isBlank r of
                  [] \<Rightarrow> Inl MalformedJsonError
                | c' # r' \<Rightarrow> if c' = CHR ''}'' then Inr [] else Inl MalformedObjectError))"

text \<open>
  The members \<open>ObjectEach\<close> visits on the bytes of a value returned by \<open>Get\<close>, or
  the error it returns before the first callback.
\<close>

fun ObjectEach :: "json \<Rightarrow> error + (string \<times> json) list" where
  "ObjectEach (JObject ms) = Inr ms"
| "ObjectEach (JString s) = scanEmptyObject s"
| "ObjectEach (JOther s) = scanEmptyObject s"

section \<open>The dependency graph\<close>

record Checksum =
  Sha1 :: string
  Md5 :: string

record dependency =
  name :: string
  version :: string
  scopes :: "string list"
  fileType :: string
  checksum :: "Checksum option"
  pathToRoot :: "string list list"

type_synonym dependencies = "string \<rightharpoonup> dependency"

fun scopeAlreadyExists :: "string \<Rightarrow> string list \<Rightarrow> bool" where
  "scopeAlreadyExists scope [] = False"
| "scopeAlreadyExists scope (existingScope # existingScopes) =
     (if existingScope = scope then True else scopeAlreadyExists scope existingScopes)"

text \<open>
  \<open>appendDependency\<close>: create the node when the key is new, else add the scope when it
  is not yet recorded; then append the path in either case.
\<close>

definition appendDependency ::
  "string \<Rightarrow> string \<Rightarrow> string \<Rightarrow> string \<Rightarrow> string list \<Rightarrow> dependencies \<Rightarrow> dependencies" where
  "appendDependency depKey depName depVersion scope path deps =
     (let deps1 =
        (case deps depKey of
           None \<Rightarrow>
             deps(depKey \<mapsto> \<lparr>name = depName, version = depVersion, scopes = [scope],
                              fileType = [], checksum = None, pathToRoot = []\<rparr>)
         | Some d \<Rightarrow>
             if \<not> scopeAlreadyExists scope (scopes d)
             then deps(depKey \<mapsto> d\<lparr>scopes := scopes d @ [scope]\<rparr>)
             else deps)
      in case deps1 depKey of
           None \<Rightarrow> deps1
         | Some d \<Rightarrow> deps1(depKey \<mapsto> d\<lparr>pathToRoot := pathToRoot d @ [path]\<rparr>))"

section \<open>The walk over the listing\<close>

text \<open>
  \<open>parseDependencies\<close> mutates \<open>nca.dependencies\<close> and returns an error; the model
  returns the error (if any) together with the map as the walk leaves it, since what
  was inserted before an error stays inserted. \<open>parseMembers\<close> is the loop of
  \<open>ObjectEach\<close> with the callback written out: \<open>data\<close> is the object being walked,
  the list is what is left to visit. A callback that returns an error ends the loop.
\<close>

lemma size_map_of:
  "map_of ms k = Some v \<Longrightarrow> size v < Suc (size_list (size_prod (\<lambda>_. 0) size) ms)"
  by (induction ms) (auto split: if_splits)

lemma size_Get2:
  "Get data [k1, k2] = Inr t \<Longrightarrow> size t < size data"
proof (cases data)
  case (JObject ms)
  assume g: "Get data [k1, k2] = Inr t"
  show ?thesis
  proof (cases "map_of ms k1")
    case None
    with g JObject show ?thesis by simp
  next
    case (Some obj)
    note s1 = size_map_of [OF Some]
    show ?thesis
    proof (cases obj)
      case (JObject fs)
      with g Some \<open>data = JObject ms\<close> have "map_of fs k2 = Some t"
        by (simp split: option.splits)
      from size_map_of [OF this] s1 JObject \<open>data = JObject ms\<close> show ?thesis by simp
    qed (use g Some JObject in simp_all)
  qed
qed simp_all

function parseDependencies ::
    "json \<Rightarrow> string \<Rightarrow> string list \<Rightarrow> dependencies \<Rightarrow> error option \<times> dependencies"
  and parseMembers ::
    "json \<Rightarrow> (string \<times> json) list \<Rightarrow> string \<Rightarrow> string list \<Rightarrow> dependencies
      \<Rightarrow> error option \<times> dependencies"
where
  "parseDependencies data scope path deps =
     (case ObjectEach data of
        Inl err \<Rightarrow> (Some err, deps)
      | Inr ms \<Rightarrow> parseMembers data ms scope path deps)"
| "parseMembers data [] scope path deps = (None, deps)"
| "parseMembers data ((key, val) # rest) scope path deps =
     (let depName = key;
          ver = Get data [depName, ''version''];
          depVersion = (case ver of Inr v \<Rightarrow> rawText v | Inl err \<Rightarrow> []);
          depKey = depName @ '':'' @ depVersion
      in case (case ver of
                 Inl err \<Rightarrow> if err \<noteq> KeyPathNotFoundError then Inl err else Inr deps
               | Inr v \<Rightarrow> Inr (appendDependency depKey depName depVersion scope path deps)) of
           Inl err \<Rightarrow> (Some err, deps)
         | Inr deps1 \<Rightarrow>
             (case Get data [depName, ''dependencies''] of
                Inl err \<Rightarrow>
                  if Error err \<noteq> ''Key path not found'' then (Some err, deps1)
                  else parseMembers data rest scope path deps1
              | Inr transitive \<Rightarrow>
                  if length (rawText transitive) > 0
                  then (case parseDependencies transitive scope (depKey # path) deps1 of
                          (Some err, deps2) \<Rightarrow> (Some err, deps2)
                        | (None, deps2) \<Rightarrow> parseMembers data rest scope path deps2)
                  else parseMembers data rest scope path deps1))"
  by pat_completeness auto

termination
  by (relation "inv_image (less_than <*lex*> less_than <*lex*> less_than)
        (\<lambda>x. case x of
           Inl (data, scope, path, deps) \<Rightarrow> (size data, Suc 0, 0)
         | Inr (data, rest, scope, path, deps) \<Rightarrow> (size data, 0, length rest))")
     (auto dest: size_Get2)

text \<open>
  \<open>prepareDependencies\<close>: the listing printed by \<open>npm ls\<close> for one scope is walked
  at its top level, and every member with key \<open>dependencies\<close> is handed to
  \<open>parseDependencies\<close> with the path that holds the module id alone. The failure of
  \<open>npm ls\<close> itself is only logged, so the listing is all this function depends on. A
  document that is not an object is malformed.
\<close>

fun prepareMembers ::
  "(string \<times> json) list \<Rightarrow> string \<Rightarrow> string \<Rightarrow> dependencies \<Rightarrow> error option \<times> dependencies" where
  "prepareMembers [] typeRestriction moduleId deps = (None, deps)"
| "prepareMembers ((key, val) # rest) typeRestriction moduleId deps =
     (if key = ''dependencies''
      then (case parseDependencies val typeRestriction [moduleId] deps of
              (Some err, deps1) \<Rightarrow> (Some err, deps1)
            | (None, deps1) \<Rightarrow> prepareMembers rest typeRestriction moduleId deps1)
      else prepareMembers rest typeRestriction moduleId deps)"

fun prepareDependencies ::
  "string \<Rightarrow> json \<Rightarrow> string \<Rightarrow> dependencies \<Rightarrow> error option \<times> dependencies" where
  "prepareDependencies typeRestriction (JObject ms) moduleId deps =
     prepareMembers ms typeRestriction moduleId deps"
| "prepareDependencies typeRestriction data moduleId deps = (Some MalformedObjectError, deps)"

text \<open>
  \<open>setDependenciesList\<close> starts from an empty map and walks the \<open>dev\<close> listing unless
  the restriction is \<open>prodOnly\<close>, then the \<open>prod\<close> listing unless it is \<open>devOnly\<close>.
  The two listings are what \<open>npm ls\<close> printed for the two scopes.
\<close>

datatype typeRestriction = defaultRestriction | all | devOnly | prodOnly

definition setDependenciesList ::
  "typeRestriction \<Rightarrow> json \<Rightarrow> json \<Rightarrow> string \<Rightarrow> error option \<times> dependencies" where
  "setDependenciesList restriction devData prodData moduleId =
     (case (if restriction \<noteq> prodOnly
            then prepareDependencies ''dev'' devData moduleId Map.empty
            else (None, Map.empty)) of
        (Some err, deps) \<Rightarrow> (Some err, deps)
      | (None, deps) \<Rightarrow>
          if restriction \<noteq> devOnly
          then prepareDependencies ''prod'' prodData moduleId deps
          else (None, deps))"

section \<open>What a walk visits\<close>

text \<open>
  A visit is one call of \<open>appendDependency\<close>: key, name, version, scope and path. The
  functions below list the visits a walk makes, in order, and the error it ends with;
  they follow the recursion of \<open>parseDependencies\<close> and leave the map out, so that the
  map a walk leaves is its visits applied one after the other (\<open>parse_visits\<close> below).
\<close>

type_synonym visit = "string \<times> string \<times> string \<times> string \<times> string list"

definition visitKey :: "visit \<Rightarrow> string" where
  "visitKey c = fst c"

definition visitScope :: "visit \<Rightarrow> string" where
  "visitScope c = fst (snd (snd (snd c)))"

definition visitPath :: "visit \<Rightarrow> string list" where
  "visitPath c = snd (snd (snd (snd c)))"

definition applyVisit :: "dependencies \<Rightarrow> visit \<Rightarrow> dependencies" where
  "applyVisit deps c =
     (case c of (depKey, depName, depVersion, scope, path) \<Rightarrow>
        appendDependency depKey depName depVersion scope path deps)"

function visits :: "json \<Rightarrow> string \<Rightarrow> string list \<Rightarrow> error option \<times> visit list"
  and visitsMembers ::
    "json \<Rightarrow> (string \<times> json) list \<Rightarrow> string \<Rightarrow> string list \<Rightarrow> error option \<times> visit list"
where
  "visits data scope path =
     (case ObjectEach data of
        Inl err \<Rightarrow> (Some err, [])
      | Inr ms \<Rightarrow> visitsMembers data ms scope path)"
| "visitsMembers data [] scope path = (None, [])"
| "visitsMembers data ((key, val) # rest) scope path =
     (let ver = Get data [key, ''version''];
          depVersion = (case ver of Inr v \<Rightarrow> rawText v | Inl err \<Rightarrow> []);
          depKey = key @ '':'' @ depVersion;
          own = (case ver of
                   Inr v \<Rightarrow> [(depKey, key, depVersion, scope, path)]
                 | Inl err \<Rightarrow> []);
          below = (case Get data [key, ''dependencies''] of
                     Inl err \<Rightarrow> (None, [])
                   | Inr transitive \<Rightarrow>
                       if rawText transitive \<noteq> []
                       then visits transitive scope (depKey # path)
                       else (None, []))
      in case fst below of
           Some err \<Rightarrow> (Some err, own @ snd below)
         | None \<Rightarrow>
             (fst (visitsMembers data rest scope path),
              own @ snd below @ snd (visitsMembers data rest scope path)))"
  by pat_completeness auto

termination
  by (relation "inv_image (less_than <*lex*> less_than <*lex*> less_than)
        (\<lambda>x. case x of
           Inl (data, scope, path) \<Rightarrow> (size data, Suc 0, 0)
         | Inr (data, rest, scope, path) \<Rightarrow> (size data, 0, length rest))")
     (auto dest: size_Get2)

fun prepareVisits :: "(string \<times> json) list \<Rightarrow> string \<Rightarrow> string \<Rightarrow> error option \<times> visit list" where
  "prepareVisits [] scope moduleId = (None, [])"
| "prepareVisits ((key, val) # rest) scope moduleId =
     (if key = ''dependencies''
      then (case fst (visits val scope [moduleId]) of
              Some err \<Rightarrow> (Some err, snd (visits val scope [moduleId]))
            | None \<Rightarrow>
                (fst (prepareVisits rest scope moduleId),
                 snd (visits val scope [moduleId]) @ snd (prepareVisits rest scope moduleId)))
      else prepareVisits rest scope moduleId)"

section \<open>The listing as the specification describes it\<close>


text \<open>
  \<open>versionOf obj\<close> is the version text of a dependency's object, empty when it has no
  \<open>version\<close>. \<open>occurs data p n obj q\<close>: in the listing \<open>data\<close>, walked with the path
  \<open>p\<close>, a dependency named \<open>n\<close> described by \<open>obj\<close> occurs at some depth, and \<open>q\<close>
  is the chain of its ancestors there: for a member of \<open>data\<close> itself that is \<open>p\<close>, and
  for a member of the \<open>dependencies\<close> of a member \<open>n0\<close> it is the chain that starts
  with the identity of \<open>n0\<close> and goes on with \<open>p\<close>.
\<close>

definition versionOf :: "json \<Rightarrow> string" where
  "versionOf obj = (case Get obj [''version''] of Inr v \<Rightarrow> rawText v | Inl err \<Rightarrow> [])"

definition hasVersion :: "json \<Rightarrow> bool" where
  "hasVersion obj = (case Get obj [''version''] of Inr v \<Rightarrow> True | Inl err \<Rightarrow> False)"

inductive occurs :: "json \<Rightarrow> string list \<Rightarrow> string \<Rightarrow> json \<Rightarrow> string list \<Rightarrow> bool" where
  occurs_top:
    "map_of ms n = Some obj \<Longrightarrow> occurs (JObject ms) p n obj p"
| occurs_nested:
    "map_of ms n0 = Some obj0 \<Longrightarrow> Get obj0 [''dependencies''] = Inr t \<Longrightarrow>
     occurs t ((n0 @ '':'' @ versionOf obj0) # p) n obj q \<Longrightarrow>
     occurs (JObject ms) p n obj q"

declare parseDependencies.simps [simp del] visits.simps [simp del]

text \<open>Invariants of the map under visits.\<close>

definition distinctScopes :: "dependencies \<Rightarrow> bool" where
  "distinctScopes deps = (\<forall>k d. deps k = Some d \<longrightarrow> distinct (scopes d))"

definition keyed :: "dependencies \<Rightarrow> bool" where
  "keyed deps = (\<forall>k d. deps k = Some d \<longrightarrow> k = name d @ '':'' @ version d)"

definition listVisits :: "json \<Rightarrow> string \<Rightarrow> string \<Rightarrow> visit list" where
  "listVisits data s m = (case data of JObject ms \<Rightarrow> snd (prepareVisits ms s m) | _ \<Rightarrow> [])"

section \<open>The scenario of the specification\<close>

definition scenarioTree :: json where
  "scenarioTree =
     JObject [(''a'', JObject [(''version'', JString ''1.0.0''),
                               (''dependencies'',
                                  JObject [(''b'', JObject [(''version'', JString ''2.0.0'')])])])]"


definition scenarioListing :: json where
  "scenarioListing = JObject [(''name'', JString ''app''), (''dependencies'', scenarioTree)]"

section \<open>Strings and lines\<close>

text \<open>
  The functions of Go's \<open>strings\<close> package the command uses, on byte strings.
  \<open>SplitN2 s sep\<close> is \<open>strings.SplitN(s, sep, 2)\<close> for a separator of one byte: the
  text before the first separator, and the text after it when there is one.
\<close>

definition HasPrefix :: "string \<Rightarrow> string \<Rightarrow> bool" where
  "HasPrefix s pre = prefix pre s"

definition HasSuffix :: "string \<Rightarrow> string \<Rightarrow> bool" where
  "HasSuffix s suf = prefix (rev suf) (rev s)"

definition TrimPrefix :: "string \<Rightarrow> string \<Rightarrow> string" where
  "TrimPrefix s pre = (if HasPrefix s pre then drop (length pre) s else s)"

definition TrimSuffix :: "string \<Rightarrow> string \<Rightarrow> string" where
  "TrimSuffix s suf = (if HasSuffix s suf then take (length s - length suf) s else s)"

fun Contains :: "string \<Rightarrow> string \<Rightarrow> bool" where
  "Contains [] substr = (substr = [])"
| "Contains (c # s) substr = (prefix substr (c # s) \<or> Contains s substr)"

definition SplitN2 :: "string \<Rightarrow> char \<Rightarrow> string \<times> string option" where
  "SplitN2 s sep =
     (if sep \<in> set s
      then (takeWhile (\<lambda>c. c \<noteq> sep) s, Some (tl (dropWhile (\<lambda>c. c \<noteq> sep) s)))
      else (s, None))"

fun Split :: "string \<Rightarrow> char \<Rightarrow> string list" where
  "Split [] sep = [[]]"
| "Split (c # s) sep =
     (if c = sep then [] # Split s sep
      else (case Split s sep of
              [] \<Rightarrow> [[c]]
            | x # xs \<Rightarrow> (c # x) # xs))"

text \<open>
  \<open>strings.TrimSpace\<close> removes the leading and trailing runes that \<open>unicode.IsSpace\<close>
  accepts. \<open>spaceRunes\<close> lists their UTF-8 encodings: the six ASCII ones, U+0085,
  U+00A0, U+1680, U+2000 to U+200A, U+2028, U+2029, U+202F, U+205F and U+3000.
\<close>

definition spaceRunes :: "string list" where
  "spaceRunes =
     [[CHR 0x09], [CHR 0x0A], [CHR 0x0B], [CHR 0x0C], [CHR 0x0D], [CHR 0x20],
      [CHR 0xC2, CHR 0x85], [CHR 0xC2, CHR 0xA0], [CHR 0xE1, CHR 0x9A, CHR 0x80],
      [CHR 0xE2, CHR 0x80, CHR 0x80], [CHR 0xE2, CHR 0x80, CHR 0x81],
      [CHR 0xE2, CHR 0x80, CHR 0x82], [CHR 0xE2, CHR 0x80, CHR 0x83],
      [CHR 0xE2, CHR 0x80, CHR 0x84], [CHR 0xE2, CHR 0x80, CHR 0x85],
      [CHR 0xE2, CHR 0x80, CHR 0x86], [CHR 0xE2, CHR 0x80, CHR 0x87],
      [CHR 0xE2, CHR 0x80, CHR 0x88], [CHR 0xE2, CHR 0x80, CHR 0x89],
      [CHR 0xE2, CHR 0x80, CHR 0x8A], [CHR 0xE2, CHR 0x80, CHR 0xA8],
      [CHR 0xE2, CHR 0x80, CHR 0xA9], [CHR 0xE2, CHR 0x80, CHR 0xAF],
      [CHR 0xE2, CHR 0x81, CHR 0x9F], [CHR 0xE3, CHR 0x80, CHR 0x80]]"

definition leadingRune :: "string list \<Rightarrow> string \<Rightarrow> nat" where
  "leadingRune runes s =
     (case filter (\<lambda>r. r \<noteq> [] \<and> prefix r s) runes of
        [] \<Rightarrow> 0
      | r # _ \<Rightarrow> length r)"

lemma leadingRune_nonempty: "0 < leadingRune runes s \<Longrightarrow> s \<noteq> []"
proof
  assume "0 < leadingRune runes s" "s = []"
  then have "filter (\<lambda>r. r \<noteq> [] \<and> prefix r s) runes = []"
    by (auto simp: filter_empty_conv)
  with \<open>0 < leadingRune runes s\<close> show False by (simp add: leadingRune_def)
qed

lemma leadingRune_drop: "0 < leadingRune runes s \<Longrightarrow> length s - leadingRune runes s < length s"
  using leadingRune_nonempty [of runes s] by (cases s) auto

function trimLeading :: "string list \<Rightarrow> string \<Rightarrow> string" where
  "trimLeading runes s =
     (if leadingRune runes s = 0 then s
      else trimLeading runes (drop (leadingRune runes s) s))"
  by pat_completeness auto

termination
  by (relation "measure (\<lambda>(runes, s). length s)") (auto intro: leadingRune_drop)

declare trimLeading.simps [simp del]

definition TrimSpace :: "string \<Rightarrow> string" where
  "TrimSpace s =
     rev (trimLeading (map rev spaceRunes) (rev (trimLeading spaceRunes s)))"

text \<open>
  A \<open>bufio.Scanner\<close> with \<open>ScanLines\<close>: the lines of the text without their line
  ends (a final line needs none, and an empty rest gives no line), each without one
  trailing carriage return. A line of \<open>MaxScanTokenSize\<close> bytes or more does not fit
  the buffer: the scan stops there and \<open>Err\<close> is \<open>ErrTooLong\<close>.
\<close>

definition MaxScanTokenSize :: nat where
  "MaxScanTokenSize = 64 * 1024"

definition ErrTooLong :: error where
  "ErrTooLong = Failure ''bufio.Scanner: token too long''"

definition dropCR :: "string \<Rightarrow> string" where
  "dropCR l = (if l \<noteq> [] \<and> last l = CHR 0x0D then butlast l else l)"

definition rawLines :: "string \<Rightarrow> string list" where
  "rawLines s = (let ls = Split s (CHR 0x0A) in if last ls = [] then butlast ls else ls)"

definition Scan :: "string \<Rightarrow> string list \<times> error option" where
  "Scan s =
     (let ls = rawLines s;
          fit = takeWhile (\<lambda>l. length l < MaxScanTokenSize) ls
      in (map dropCR fit, if length fit < length ls then Some ErrTooLong else None))"

section \<open>The command's state\<close>

text \<open>
  The fields of \<open>NpmCommandArgs\<close> that the command reads and writes. A version is the
  list of the numeric components of the version string (\<open>5.4.0\<close> is \<open>[5, 4, 0]\<close>);
  \<open>packageInfo\<close> is kept as the module id it yields. \<open>effects\<close> is not a field of
  the Go struct: it records, in order, the calls the command has made to the project's
  \<open>.npmrc\<close>, the install run, Artifactory and the build-info store. The queries
  to \<open>npm\<close> (version, configuration, listing) are not recorded.
\<close>

type_synonym Version = "nat list"

datatype effect =
    BackupNpmrc
  | RemoveNpmrc
  | WriteNpmrc string
  | RunNpm "string list"
  | RestoreNpmrc
  | FetchDependencyInfo string
  | SaveDependenciesData "string list"
  | PrintMissingDependencies "string list"

record NpmCommandArgs =
  command :: string
  threads :: int
  jsonOutput :: bool
  executablePath :: string
  workingDirectory :: string
  registry :: string
  npmAuth :: string
  collectBuildInfo :: bool
  dependencies :: dependencies
  typeRestriction :: typeRestriction
  packageInfo :: string
  npmVersion :: "Version option"
  npmArgs :: "string list"
  repo :: string
  effects :: "effect list"

section \<open>The configuration translator\<close>

definition newline :: string where
  "newline = [CHR 0x0A]"

definition FormatBool :: "bool \<Rightarrow> string" where
  "FormatBool b = (if b then ''true'' else ''false'')"

definition isValidKey :: "string \<Rightarrow> bool" where
  "isValidKey key =
     (\<not> HasPrefix key ''//'' \<and>
      \<not> HasPrefix key '';'' \<and>
      \<not> HasPrefix key ''@'' \<and>
      key \<noteq> ''registry'' \<and>
      key \<noteq> ''metrics-registry'' \<and>
      key \<noteq> ''json'')"

definition addArrayConfigs :: "string list \<Rightarrow> string \<Rightarrow> string \<Rightarrow> string list" where
  "addArrayConfigs conf key arrayValue =
     (if arrayValue = ''[]'' then conf
      else
        (let values = TrimPrefix (TrimSuffix arrayValue '']'') ''['';
             valuesSlice = Split values (CHR '','')
         in foldl (\<lambda>conf val. conf @ [key @ ''[] = '' @ val, newline]) conf valuesSlice))"

definition setTypeRestriction :: "string \<Rightarrow> string \<Rightarrow> NpmCommandArgs \<Rightarrow> NpmCommandArgs" where
  "setTypeRestriction key val nca =
     (if key = ''omit'' then
        (if Contains val ''dev'' then nca\<lparr>typeRestriction := prodOnly\<rparr>
         else nca\<lparr>typeRestriction := all\<rparr>)
      else if typeRestriction nca = defaultRestriction then
        (if key = ''only'' then
           (if Contains val ''prod'' then nca\<lparr>typeRestriction := prodOnly\<rparr>
            else if Contains val ''dev'' then nca\<lparr>typeRestriction := devOnly\<rparr>
            else nca)
         else if key = ''production'' \<and> Contains val ''true'' then nca\<lparr>typeRestriction := prodOnly\<rparr>
         else nca)
      else nca)"

text \<open>
  One round of the loop of \<open>prepareConfigData\<close>, on the line \<open>currOption\<close>: the state
  is the list \<open>filteredConf\<close> and the command, whose restriction the round may set.
\<close>

definition configLine ::
  "string list \<times> NpmCommandArgs \<Rightarrow> string \<Rightarrow> string list \<times> NpmCommandArgs" where
  "configLine st currOption =
     (case st of (filteredConf, nca) \<Rightarrow>
        if currOption \<noteq> [] then
          (case SplitN2 currOption (CHR ''='') of
             (first, Some second) \<Rightarrow>
               (let key = TrimSpace first in
                if isValidKey key then
                  (let val = TrimSpace second;
                       filteredConf1 =
                         (if HasPrefix val ''['' \<and> HasSuffix val '']''
                          then addArrayConfigs filteredConf key val
                          else filteredConf @ [currOption, newline])
                   in (filteredConf1, setTypeRestriction key val nca))
                else if HasPrefix first ''@''
                then (filteredConf @ [first, '' = '', registry nca, newline], nca)
                else (filteredConf, nca))
           | (first, None) \<Rightarrow>
               if HasPrefix first ''@''
               then (filteredConf @ [first, '' = '', registry nca, newline], nca)
               else (filteredConf, nca))
        else (filteredConf, nca))"

definition prepareConfigData :: "string \<Rightarrow> NpmCommandArgs \<Rightarrow> (error + string) \<times> NpmCommandArgs" where
  "prepareConfigData data nca =
     (case Scan data of (lines, scanErr) \<Rightarrow>
        (case foldl configLine ([], nca) lines of (filteredConf, nca1) \<Rightarrow>
           (case scanErr of
              Some err \<Rightarrow> (Inl err, nca1)
            | None \<Rightarrow>
                (Inr (concat (filteredConf @
                         [''json = '', FormatBool (jsonOutput nca1), newline,
                          ''registry = '', registry nca1, newline,
                          npmAuth nca1])),
                 nca1))))"

text \<open>
  The directives of a dump: key and value of each line for which the loop calls
  \<open>setTypeRestriction\<close>, in order.
\<close>

definition directive :: "string \<Rightarrow> (string \<times> string) option" where
  "directive currOption =
     (if currOption \<noteq> [] then
        (case SplitN2 currOption (CHR ''='') of
           (first, Some second) \<Rightarrow>
             if isValidKey (TrimSpace first) then Some (TrimSpace first, TrimSpace second) else None
         | (first, None) \<Rightarrow> None)
      else None)"

definition directives :: "string \<Rightarrow> (string \<times> string) list" where
  "directives data = List.map_filter directive (fst (Scan data))"

text \<open>
  What one call of \<open>setTypeRestriction\<close> does to the restriction, and the two notions
  the specification uses: the restriction an \<open>omit\<close> value stands for, and the
  deprecated directives (\<open>only\<close> with a value that holds \<open>prod\<close> or \<open>dev\<close>,
  \<open>production\<close> with a value that holds \<open>true\<close>) with the restriction they stand for.
\<close>

definition restrictionStep :: "typeRestriction \<Rightarrow> string \<times> string \<Rightarrow> typeRestriction" where
  "restrictionStep r kv =
     (case kv of (key, val) \<Rightarrow>
        if key = ''omit'' then (if Contains val ''dev'' then prodOnly else all)
        else if r = defaultRestriction then
          (if key = ''only'' then
             (if Contains val ''prod'' then prodOnly
              else if Contains val ''dev'' then devOnly else r)
           else if key = ''production'' \<and> Contains val ''true'' then prodOnly else r)
        else r)"

definition omitRestriction :: "string \<Rightarrow> typeRestriction" where
  "omitRestriction val = (if Contains val ''dev'' then prodOnly else all)"

definition deprecatedDirective :: "string \<times> string \<Rightarrow> bool" where
  "deprecatedDirective kv =
     (fst kv = ''only'' \<and> (Contains (snd kv) ''prod'' \<or> Contains (snd kv) ''dev'') \<or>
      fst kv = ''production'' \<and> Contains (snd kv) ''true'')"

definition deprecatedRestriction :: "string \<times> string \<Rightarrow> typeRestriction" where
  "deprecatedRestriction kv =
     (if fst kv = ''only'' then (if Contains (snd kv) ''prod'' then prodOnly else devOnly)
      else prodOnly)"

definition omitDump :: string where
  "omitDump = ''omit = dev'' @ newline @ ''only = prod'' @ newline"

definition productionDump :: string where
  "productionDump = ''production = true'' @ newline"

definition freshCommand :: NpmCommandArgs where
  "freshCommand =
     \<lparr>command = ''install'', threads = 3, jsonOutput = False, executablePath = [],
      workingDirectory = [], registry = [], npmAuth = [], collectBuildInfo = False,
      dependencies = Map.empty, typeRestriction = defaultRestriction, packageInfo = [],
      npmVersion = None, npmArgs = [], repo = [], effects = []\<rparr>"

definition deprecatedDump :: string where
  "deprecatedDump =
     ''loglevel = notice'' @ newline @ ''only = dev'' @ newline @ ''production = true'' @ newline"

section \<open>The manifest\<close>

text \<open>
  \<open>buildinfo.Dependency\<close>, the record of the manifest. \<open>transformDependencies\<close> ranges
  over the map \<open>nca.dependencies\<close>; Go visits the keys of a map in an order of its
  choice, which the model takes as the list \<open>order\<close>.
\<close>

record Dependency =
  Id :: string
  Type :: string
  Scopes :: "string list"
  Checksum :: "Checksum option"
  RequestedBy :: "string list list"

definition transformStep ::
  "NpmCommandArgs \<Rightarrow> Dependency list \<times> Dependency list \<Rightarrow> string
    \<Rightarrow> Dependency list \<times> Dependency list" where
  "transformStep nca acc k =
     (case acc of (resolved, missingDependencies) \<Rightarrow>
        (case dependencies nca k of
           None \<Rightarrow> (resolved, missingDependencies)
         | Some dependency \<Rightarrow>
             (let biDependency =
                    \<lparr>Id = name dependency @ '':'' @ version dependency,
                     Type = fileType dependency,
                     Scopes = scopes dependency,
                     Checksum = checksum dependency,
                     RequestedBy = pathToRoot dependency\<rparr>
              in if checksum dependency \<noteq> None
                 then (resolved @ [biDependency], missingDependencies)
                 else (resolved, missingDependencies @ [biDependency]))))"

definition transformDependencies ::
  "string list \<Rightarrow> NpmCommandArgs \<Rightarrow> Dependency list \<times> Dependency list" where
  "transformDependencies order nca = foldl (transformStep nca) ([], []) order"

definition mapOrder :: "dependencies \<Rightarrow> string list \<Rightarrow> bool" where
  "mapOrder deps order = (distinct order \<and> set order = dom deps)"

definition isResolved :: "dependencies \<Rightarrow> string \<Rightarrow> bool" where
  "isResolved deps k = (case deps k of None \<Rightarrow> False | Some d \<Rightarrow> checksum d \<noteq> None)"

definition isMissing :: "dependencies \<Rightarrow> string \<Rightarrow> bool" where
  "isMissing deps k = (case deps k of None \<Rightarrow> False | Some d \<Rightarrow> checksum d = None)"

section \<open>The collaborators\<close>

text \<open>
  What the command gets from outside, one field for each call it makes: the result
  the call returns in this run. The functions behind them belong to other packages
  (\<open>os/exec\<close>, the \<open>npm\<close> executable, the file system, Artifactory, the build-info
  store), so a theorem about the command holds for every \<open>world\<close>.

  \<open>getDependencyInfo name ver threadId\<close> is \<open>GetDependencyInfo\<close> with the previous
  build and the services manager of this run: checksum, file type and error.
  \<open>schedule\<close> is the order in which the worker pool completes the tasks of the
  enrichment pass, each with the thread that ran it, and \<open>rangeOrder\<close> the order in
  which Go ranges over \<open>nca.dependencies\<close> in \<open>transformDependencies\<close>.
\<close>

datatype statResult = Exists | NotExist | StatError error

record world =
  lookPath :: "error + string"
  npmVersionOutput :: "error + Version"
  configGetJson :: "error + string"
  getWorkingDirectory :: "error + string"
  createArtAuthConfig :: "error + bool"
  getArtifactoryNpmRepoDetails :: "error + string \<times> string"
  prepareBuildInfo :: "error + bool \<times> string"
  backupFile :: "error option"
  restoreNpmrcFunc :: "error option"
  getConfigList :: string
  statNpmrc :: statResult
  removeNpmrc :: "error option"
  writeNpmrc :: "error option"
  runCmd :: "error option"
  runList :: "string \<Rightarrow> json"
  createServiceManager :: "error option"
  getDependenciesFromLatestBuild :: "error option"
  getDependencyInfo :: "string \<Rightarrow> string \<Rightarrow> nat \<Rightarrow> Checksum option \<times> string \<times> error option"
  schedule :: "(string \<times> nat) list"
  rangeOrder :: "string list"
  storeDependencies :: "error option"

section \<open>The enrichment pass\<close>

text \<open>
  The task \<open>createGetDependencyInfoFunc\<close> builds for the node \<open>dependencyIndex\<close>: it
  returns the error of the lookup, leaves the node alone when the lookup fails or
  finds no checksum, and writes file type and checksum into the node otherwise.
\<close>

definition getDependencyInfoTask ::
  "world \<Rightarrow> string \<Rightarrow> nat \<Rightarrow> NpmCommandArgs \<Rightarrow> error option \<times> NpmCommandArgs" where
  "getDependencyInfoTask w dependencyIndex threadId nca =
     (case dependencies nca dependencyIndex of
        None \<Rightarrow> (None, nca)
      | Some d \<Rightarrow>
          (case getDependencyInfo w (name d) (version d) threadId of
             (checksum1, fileType1, err) \<Rightarrow>
               if err \<noteq> None \<or> checksum1 = None then (err, nca)
               else (None, nca\<lparr>dependencies := (dependencies nca)
                       (dependencyIndex \<mapsto> d\<lparr>fileType := fileType1, checksum := checksum1\<rparr>)\<rparr>)))"

text \<open>
  \<open>clientutils.ErrorsQueue\<close>: a buffered channel of errors. \<open>AddError\<close> puts the error
  in when there is room and drops it otherwise; \<open>GetError\<close> takes the first one out,
  or returns nil. \<open>NewErrorsQueue(1)\<close> has room for one error.
\<close>

definition AddError :: "nat \<Rightarrow> error \<Rightarrow> error list \<Rightarrow> error list" where
  "AddError queueSize err queue = (if length queue < queueSize then queue @ [err] else queue)"

definition GetError :: "error list \<Rightarrow> error option" where
  "GetError queue = (case queue of [] \<Rightarrow> None | err # _ \<Rightarrow> Some err)"

text \<open>
  The runner of \<open>parallel.NewBounedRunner(threads, false)\<close> does not fail fast: it
  runs every task that was added, and hands the error of a task to the handler given
  with it. A task touches its own node only, so the pass is the tasks run one after
  the other in the order they complete.
\<close>

definition runTask ::
  "world \<Rightarrow> error list \<times> NpmCommandArgs \<Rightarrow> string \<times> nat \<Rightarrow> error list \<times> NpmCommandArgs" where
  "runTask w st task =
     (case st of (errorsQueue, nca) \<Rightarrow>
        (case getDependencyInfoTask w (fst task) (snd task)
                (nca\<lparr>effects := effects nca @ [FetchDependencyInfo (fst task)]\<rparr>) of
           (err, nca1) \<Rightarrow>
             ((case err of None \<Rightarrow> errorsQueue | Some e \<Rightarrow> AddError 1 e errorsQueue), nca1)))"

definition collectDependenciesChecksums ::
  "world \<Rightarrow> NpmCommandArgs \<Rightarrow> error option \<times> NpmCommandArgs" where
  "collectDependenciesChecksums w nca =
     (case createServiceManager w of
        Some err \<Rightarrow> (Some err, nca)
      | None \<Rightarrow>
          (case getDependenciesFromLatestBuild w of
             Some err \<Rightarrow> (Some err, nca)
           | None \<Rightarrow>
               (case foldl (runTask w) ([], nca) (schedule w) of
                  (errorsQueue, nca1) \<Rightarrow> (GetError errorsQueue, nca1))))"

text \<open>
  What a task does to its node, and the error it returns, read off the lookup.
\<close>

definition enriched :: "world \<Rightarrow> nat \<Rightarrow> dependency \<Rightarrow> dependency" where
  "enriched w threadId d =
     (case getDependencyInfo w (name d) (version d) threadId of
        (checksum1, fileType1, err) \<Rightarrow>
          if err \<noteq> None \<or> checksum1 = None then d
          else d\<lparr>fileType := fileType1, checksum := checksum1\<rparr>)"


definition enrichNode :: "world \<Rightarrow> string \<Rightarrow> nat \<Rightarrow> dependencies \<Rightarrow> dependencies" where
  "enrichNode w k t deps = (\<lambda>k'. if k' = k then map_option (enriched w t) (deps k) else deps k')"


section \<open>A sample run\<close>

definition sampleChecksum :: Checksum where
  "sampleChecksum = \<lparr>Sha1 = ''da39a3ee'', Md5 = ''d41d8cd9''\<rparr>"

definition sampleLookup :: "string \<Rightarrow> string \<Rightarrow> nat \<Rightarrow> Checksum option \<times> string \<times> error option" where
  "sampleLookup n v threadId =
     (if n = ''a'' \<or> n = ''d'' then (Some sampleChecksum, ''tgz'', None)
      else if n = ''b'' \<or> n = ''c'' then (None, [], None)
      else (None, [], Some (Failure ''503 Service Unavailable'')))"

definition sampleWorld :: world where
  "sampleWorld =
     \<lparr>lookPath = Inr ''/usr/bin/npm'',
      npmVersionOutput = Inr [6, 14, 8],
      configGetJson = Inr ''false'',
      getWorkingDirectory = Inr ''/project'',
      createArtAuthConfig = Inr False,
      getArtifactoryNpmRepoDetails = Inr (''_auth = secret'', ''https://acme/api/npm/npm-repo/''),
      prepareBuildInfo = Inr (True, ''app@1.0.0''),
      backupFile = None,
      restoreNpmrcFunc = None,
      getConfigList = productionDump,
      statNpmrc = NotExist,
      removeNpmrc = None,
      writeNpmrc = None,
      runCmd = None,
      runList = (\<lambda>scope. scenarioListing),
      createServiceManager = None,
      getDependenciesFromLatestBuild = None,
      getDependencyInfo = sampleLookup,
      schedule = [(''e:5.0.0'', 0), (''c:3.0.0'', 1), (''d:4.0.0'', 0)],
      rangeOrder = [''d:4.0.0'', ''e:5.0.0'', ''c:3.0.0''],
      storeDependencies = None\<rparr>"

definition sampleNode :: "string \<Rightarrow> string \<Rightarrow> dependency" where
  "sampleNode n v =
     \<lparr>name = n, version = v, scopes = [''prod''], fileType = [], checksum = None,
      pathToRoot = [[''app@1.0.0'']]\<rparr>"


definition enrichedCommand :: NpmCommandArgs where
  "enrichedCommand =
     freshCommand\<lparr>dependencies :=
       [''c:3.0.0'' \<mapsto> sampleNode ''c'' ''3.0.0'',
        ''d:4.0.0'' \<mapsto> (sampleNode ''d'' ''4.0.0'')
                          \<lparr>fileType := ''tgz'', checksum := Some sampleChecksum\<rparr>]\<rparr>"

section \<open>The command\<close>

text \<open>
  A method of the command changes the command and returns an error: the model returns
  both. \<open>andThen\<close> is the Go idiom \<open>if err := step(); err != nil { return err }\<close>.
\<close>

definition andThen ::
  "error option \<times> NpmCommandArgs \<Rightarrow> (NpmCommandArgs \<Rightarrow> error option \<times> NpmCommandArgs)
    \<Rightarrow> error option \<times> NpmCommandArgs" where
  "andThen r next_step =
     (case r of
        (Some err, nca) \<Rightarrow> (Some err, nca)
      | (None, nca) \<Rightarrow> next_step nca)"

definition setNpmExecutable :: "world \<Rightarrow> NpmCommandArgs \<Rightarrow> error option \<times> NpmCommandArgs" where
  "setNpmExecutable w nca =
     (case lookPath w of
        Inl err \<Rightarrow> (Some err, nca)
      | Inr npmExecPath \<Rightarrow>
          if npmExecPath = [] then (Some (Failure ''could not find 'npm' executable''), nca)
          else (None, nca\<lparr>executablePath := npmExecPath\<rparr>))"

text \<open>
  \<open>version.Compare\<close> belongs to the client library. By its documentation,
  \<open>version.Compare(ver1)\<close> is 0 when \<open>ver1\<close> is the version, 1 when \<open>ver1\<close> is the
  higher of the two and -1 when it is the lower (\<open>AtLeast(min)\<close> of the same library
  is \<open>Compare(min) <= 0\<close>); a component that is missing counts as 0.
\<close>

fun compareTokens :: "nat list \<Rightarrow> nat list \<Rightarrow> int" where
  "compareTokens [] [] = 0"
| "compareTokens (t1 # ver1) [] = (if t1 > 0 then 1 else compareTokens ver1 [])"
| "compareTokens [] (t2 # ver2) = (if 0 < t2 then - 1 else compareTokens [] ver2)"
| "compareTokens (t1 # ver1) (t2 # ver2) =
     (if t1 > t2 then 1 else if t1 < t2 then - 1 else compareTokens ver1 ver2)"

definition Compare :: "Version \<Rightarrow> Version \<Rightarrow> int" where
  "Compare version1 ver1 = compareTokens ver1 version1"

definition minSupportedNpmVersion :: Version where
  "minSupportedNpmVersion = [5, 4, 0]"

definition validateNpmVersion :: "world \<Rightarrow> NpmCommandArgs \<Rightarrow> error option \<times> NpmCommandArgs" where
  "validateNpmVersion w nca =
     (case npmVersionOutput w of
        Inl err \<Rightarrow> (Some err, nca)
      | Inr npmVersion1 \<Rightarrow>
          if Compare npmVersion1 minSupportedNpmVersion > 0
          then (Some (Failure (''JFrog CLI npm '' @ command nca @
                  '' command requires npm client version 5.4.0 or higher'')), nca)
          else (None, nca\<lparr>npmVersion := Some npmVersion1\<rparr>))"

definition setJsonOutput :: "world \<Rightarrow> NpmCommandArgs \<Rightarrow> error option \<times> NpmCommandArgs" where
  "setJsonOutput w nca =
     (case configGetJson w of
        Inl err \<Rightarrow> (Some err, nca)
      | Inr jsonOutput1 \<Rightarrow> (None, nca\<lparr>jsonOutput := (jsonOutput1 \<noteq> ''false'')\<rparr>))"

definition setArtifactoryAuth :: "world \<Rightarrow> NpmCommandArgs \<Rightarrow> error option \<times> NpmCommandArgs" where
  "setArtifactoryAuth w nca =
     (case createArtAuthConfig w of
        Inl err \<Rightarrow> (Some err, nca)
      | Inr sshAuthHeaders \<Rightarrow>
          if sshAuthHeaders
          then (Some (Failure ''SSH authentication is not supported in this command''), nca)
          else (None, nca))"

definition preparePrerequisites :: "world \<Rightarrow> NpmCommandArgs \<Rightarrow> error option \<times> NpmCommandArgs" where
  "preparePrerequisites w nca =
     andThen (setNpmExecutable w nca) (\<lambda>nca.
     andThen (validateNpmVersion w nca) (\<lambda>nca.
     andThen (setJsonOutput w nca) (\<lambda>nca.
     andThen (case getWorkingDirectory w of
                Inl err \<Rightarrow> (Some err, nca)
              | Inr dir \<Rightarrow> (None, nca\<lparr>workingDirectory := dir\<rparr>)) (\<lambda>nca.
     andThen (setArtifactoryAuth w nca) (\<lambda>nca.
     andThen (case getArtifactoryNpmRepoDetails w of
                Inl err \<Rightarrow> (Some err, nca)
              | Inr (auth, reg) \<Rightarrow> (None, nca\<lparr>npmAuth := auth, registry := reg\<rparr>)) (\<lambda>nca.
     andThen (case prepareBuildInfo w of
                Inl err \<Rightarrow> (Some err, nca)
              | Inr (collect, info) \<Rightarrow>
                  (None, nca\<lparr>collectBuildInfo := collect, packageInfo := info\<rparr>)) (\<lambda>nca.
     (backupFile w, nca\<lparr>effects := effects nca @ [BackupNpmrc]\<rparr>))))))))"

definition removeNpmrcIfExists :: "world \<Rightarrow> NpmCommandArgs \<Rightarrow> error option \<times> NpmCommandArgs" where
  "removeNpmrcIfExists w nca =
     (case statNpmrc w of
        NotExist \<Rightarrow> (None, nca)
      | StatError err \<Rightarrow> (Some err, nca)
      | Exists \<Rightarrow> (removeNpmrc w, nca\<lparr>effects := effects nca @ [RemoveNpmrc]\<rparr>))"

definition createTempNpmrc :: "world \<Rightarrow> NpmCommandArgs \<Rightarrow> error option \<times> NpmCommandArgs" where
  "createTempNpmrc w nca =
     (case prepareConfigData (getConfigList w) nca of
        (Inl err, nca1) \<Rightarrow> (Some err, nca1)
      | (Inr configData, nca1) \<Rightarrow>
          andThen (removeNpmrcIfExists w nca1) (\<lambda>nca.
          (writeNpmrc w, nca\<lparr>effects := effects nca @ [WriteNpmrc configData]\<rparr>)))"

definition filterFlags :: "string list \<Rightarrow> string list" where
  "filterFlags splitArgs = filter (\<lambda>arg. \<not> HasPrefix arg ''-'') splitArgs"

definition runInstallOrCi :: "world \<Rightarrow> NpmCommandArgs \<Rightarrow> error option \<times> NpmCommandArgs" where
  "runInstallOrCi w nca =
     (let filteredArgs = filterFlags (npmArgs nca);
          nca1 = (if collectBuildInfo nca \<and> length filteredArgs > 0
                  then nca\<lparr>collectBuildInfo := False\<rparr> else nca)
      in (runCmd w, nca1\<lparr>effects := effects nca1 @ [RunNpm (command nca # filteredArgs)]\<rparr>))"

definition callRestoreNpmrcFunc :: "world \<Rightarrow> NpmCommandArgs \<Rightarrow> error option \<times> NpmCommandArgs" where
  "callRestoreNpmrcFunc w nca =
     (restoreNpmrcFunc w, nca\<lparr>effects := effects nca @ [RestoreNpmrc]\<rparr>)"

definition twoErrors :: "error \<Rightarrow> error \<Rightarrow> error" where
  "twoErrors restoreErr err =
     Failure (''Two errors occurred:'' @ newline @ '' '' @ Error restoreErr @
              newline @ '' '' @ Error err)"

definition restoreNpmrcAndError ::
  "world \<Rightarrow> error \<Rightarrow> NpmCommandArgs \<Rightarrow> error option \<times> NpmCommandArgs" where
  "restoreNpmrcAndError w err nca =
     (case callRestoreNpmrcFunc w nca of
        (Some restoreErr, nca1) \<Rightarrow> (Some (twoErrors restoreErr err), nca1)
      | (None, nca1) \<Rightarrow> (Some err, nca1))"

definition setDependenciesListOf :: "world \<Rightarrow> NpmCommandArgs \<Rightarrow> error option \<times> NpmCommandArgs" where
  "setDependenciesListOf w nca =
     (case setDependenciesList (typeRestriction nca) (runList w ''dev'') (runList w ''prod'')
             (packageInfo nca) of
        (err, deps) \<Rightarrow> (err, nca\<lparr>dependencies := deps\<rparr>))"

text \<open>
  \<open>saveDependenciesData\<close> hands the first sequence to the build-info store and, when
  that succeeds, the second to the listing of missing dependencies. (The module name
  it fills into the build configuration is not part of the model.)
\<close>

definition saveDependenciesData :: "world \<Rightarrow> NpmCommandArgs \<Rightarrow> error option \<times> NpmCommandArgs" where
  "saveDependenciesData w nca =
     (case transformDependencies (rangeOrder w) nca of
        (resolved, missingDependencies) \<Rightarrow>
          (let nca1 = nca\<lparr>effects := effects nca @ [SaveDependenciesData (map Id resolved)]\<rparr>
           in case storeDependencies w of
                Some err \<Rightarrow> (Some err, nca1)
              | None \<Rightarrow>
                  (None, nca1\<lparr>effects := effects nca1 @
                           [PrintMissingDependencies (map Id missingDependencies)]\<rparr>)))"

definition run :: "world \<Rightarrow> NpmCommandArgs \<Rightarrow> error option \<times> NpmCommandArgs" where
  "run w nca =
     (case preparePrerequisites w nca of
        (Some err, nca1) \<Rightarrow> (Some err, nca1)
      | (None, nca1) \<Rightarrow>
          (case createTempNpmrc w nca1 of
             (Some err, nca2) \<Rightarrow> restoreNpmrcAndError w err nca2
           | (None, nca2) \<Rightarrow>
               (case runInstallOrCi w nca2 of
                  (Some err, nca3) \<Rightarrow> restoreNpmrcAndError w err nca3
                | (None, nca3) \<Rightarrow>
                    (case callRestoreNpmrcFunc w nca3 of
                       (Some err, nca4) \<Rightarrow> (Some err, nca4)
                     | (None, nca4) \<Rightarrow>
                         if \<not> collectBuildInfo nca4 then (None, nca4)
                         else
                           andThen (setDependenciesListOf w nca4) (\<lambda>nca.
                           andThen (collectDependenciesChecksums w nca) (\<lambda>nca.
                           saveDependenciesData w nca))))))"

definition installCommand :: NpmCommandArgs where
  "installCommand = freshCommand\<lparr>npmArgs := [''--loglevel=silly'']\<rparr>"

definition runWorld :: world where
  "runWorld = sampleWorld\<lparr>schedule := [(''b:2.0.0'', 1), (''a:1.0.0'', 0)],
                           rangeOrder := [''b:2.0.0'', ''a:1.0.0'']\<rparr>"

definition failingWorld :: world where
  "failingWorld =
     runWorld\<lparr>runCmd := Some (Failure ''exit status 1''),
              restoreNpmrcFunc := Some (Failure ''permission denied'')\<rparr>"

text \<open>
  \<open>lowerVersion a b\<close>: the version \<open>a\<close> is lower than \<open>b\<close>, comparing the components
  from the major one on, a missing component counting as 0.
\<close>

fun lowerVersion :: "Version \<Rightarrow> Version \<Rightarrow> bool" where
  "lowerVersion [] [] = False"
| "lowerVersion (a # as) [] = False"
| "lowerVersion [] (b # bs) = (0 < b \<or> lowerVersion [] bs)"
| "lowerVersion (a # as) (b # bs) = (a < b \<or> a = b \<and> lowerVersion as bs)"

definition oldNpmWorld :: world where
  "oldNpmWorld = runWorld\<lparr>npmVersionOutput := Inr [5, 3, 9]\<rparr>"

definition nonBooleanWorld :: world where
  "nonBooleanWorld = runWorld\<lparr>configGetJson := Inr ''yes'', prepareBuildInfo := Inr (False, [])\<rparr>"

definition jsonQueryFails :: world where
  "jsonQueryFails = runWorld\<lparr>configGetJson := Inl (Failure ''npm config get json: exit status 1'')\<rparr>"

definition packageCommand :: NpmCommandArgs where
  "packageCommand = freshCommand\<lparr>npmArgs := [''lodash'', ''--save'']\<rparr>"

section \<open>Lemmas about the walk\<close>

lemma Get_err: "Get data ks = Inl e \<Longrightarrow> e = KeyPathNotFoundError"
  by (induction data ks rule: Get.induct) (auto split: option.splits)

lemma tree_induct [case_names whole nil member]:
  assumes whole: "\<And>data. (\<And>ms. ObjectEach data = Inr ms \<Longrightarrow> Q data ms) \<Longrightarrow> P data"
    and nil: "\<And>data. Q data []"
    and member: "\<And>data key val rest.
        Q data rest \<Longrightarrow>
        (\<And>t. Get data [key, ''dependencies''] = Inr t \<Longrightarrow> P t) \<Longrightarrow>
        Q data ((key, val) # rest)"
  shows "P data \<and> (\<forall>rest. Q data rest)"
proof (induction data rule: measure_induct_rule [where f = size])
  case (less data)
  have q: "Q data rest" for rest
  proof (induction rest)
    case Nil
    show ?case by (rule nil)
  next
    case (Cons kv rest)
    obtain key val where kv: "kv = (key, val)" by (cases kv)
    have "P t" if "Get data [key, ''dependencies''] = Inr t" for t
      using less [OF size_Get2 [OF that]] by simp
    with Cons show ?case unfolding kv by (intro member)
  qed
  then show ?case using whole by blast
qed

lemma applyVisit_simp [simp]:
  "applyVisit deps (k, n, v, s, p) = appendDependency k n v s p deps"
  by (simp add: applyVisit_def)

lemma parse_visits_both:
  "(\<forall>scope path deps. parseDependencies data scope path deps =
      (fst (visits data scope path), foldl applyVisit deps (snd (visits data scope path)))) \<and>
   (\<forall>rest. \<forall>scope path deps. parseMembers data rest scope path deps =
      (fst (visitsMembers data rest scope path),
       foldl applyVisit deps (snd (visitsMembers data rest scope path))))"
proof (induction rule: tree_induct)
  case (whole data)
  then show ?case
    by (simp add: parseDependencies.simps visits.simps split: sum.splits)
next
  case (nil data)
  show ?case by simp
next
  case (member data key val rest)
  show ?case
  proof (intro allI)
    fix scope path deps
    show "parseMembers data ((key, val) # rest) scope path deps =
      (fst (visitsMembers data ((key, val) # rest) scope path),
       foldl applyVisit deps (snd (visitsMembers data ((key, val) # rest) scope path)))"
    proof (cases "Get data [key, ''dependencies'']")
      case (Inl e)
      with member(1) show ?thesis
        by (auto simp: Let_def dest: Get_err split: sum.splits)
    next
      case (Inr t)
      note ih = member(2) [OF Inr]
      show ?thesis
      proof (cases "rawText t = []")
        case True
        with Inr member(1) show ?thesis
          by (auto simp: Let_def dest: Get_err split: sum.splits)
      next
        case False
        with Inr member(1) ih show ?thesis
          by (cases "fst (visits t scope ((key @ '':'' @ (case Get data [key, ''version''] of Inr v \<Rightarrow> rawText v | Inl err \<Rightarrow> [])) # path))")
             (auto simp: Let_def dest: Get_err split: sum.splits)
      qed
    qed
  qed
qed

lemmas parse_visits = parse_visits_both [THEN conjunct1, rule_format]

lemma scopeAlreadyExists_iff [simp]: "scopeAlreadyExists s xs \<longleftrightarrow> s \<in> set xs"
  by (induction xs) auto

lemma appendDependency_other: "k' \<noteq> k \<Longrightarrow> appendDependency k n v s p g k' = g k'"
  by (simp add: appendDependency_def Let_def split: option.splits)

lemma appendDependency_new:
  "g k = None \<Longrightarrow> appendDependency k n v s p g k =
     Some \<lparr>name = n, version = v, scopes = [s], fileType = [], checksum = None, pathToRoot = [p]\<rparr>"
  by (simp add: appendDependency_def Let_def)

lemma appendDependency_old:
  "g k = Some d \<Longrightarrow> appendDependency k n v s p g k =
     Some (d\<lparr>scopes := (if s \<in> set (scopes d) then scopes d else scopes d @ [s]),
             pathToRoot := pathToRoot d @ [p]\<rparr>)"
  by (simp add: appendDependency_def Let_def)

lemma dom_appendDependency: "dom (appendDependency k n v s p g) = insert k (dom g)"
  by (auto simp: appendDependency_def Let_def split: option.splits if_splits)

lemma dom_applyVisit: "dom (applyVisit g c) = insert (visitKey c) (dom g)"
  by (cases c) (simp add: visitKey_def dom_appendDependency)

lemma dom_foldl_applyVisit: "dom (foldl applyVisit g cs) = dom g \<union> visitKey ` set cs"
proof (induction cs arbitrary: g)
  case Nil
  show ?case by simp
next
  case (Cons c cs)
  have "dom (foldl applyVisit g (c # cs)) = dom (applyVisit g c) \<union> visitKey ` set cs"
    using Cons [of "applyVisit g c"] by simp
  also have "\<dots> = dom g \<union> visitKey ` set (c # cs)"
    by (simp add: dom_applyVisit)
  finally show ?case .
qed

lemma foldl_applyVisit_other:
  "k \<notin> visitKey ` set cs \<Longrightarrow> foldl applyVisit g cs k = g k"
  by (induction cs arbitrary: g) (auto simp: visitKey_def appendDependency_other)

lemma Get2:
  "Get (JObject ms) [k1, k2] =
     (case map_of ms k1 of None \<Rightarrow> Inl KeyPathNotFoundError | Some obj \<Rightarrow> Get obj [k2])"
  by simp

lemma Get2_Inr:
  "Get data [k1, k2] = Inr v \<Longrightarrow> \<exists>ms obj. data = JObject ms \<and> map_of ms k1 = Some obj \<and> Get obj [k2] = Inr v"
  by (cases data) (auto split: option.splits)

lemma visits_sound_both:
  "(\<forall>s p c. c \<in> set (snd (visits data s p)) \<longrightarrow>
      (\<exists>n obj. occurs data p n obj (visitPath c) \<and> hasVersion obj \<and>
         c = (n @ '':'' @ versionOf obj, n, versionOf obj, s, visitPath c))) \<and>
   (\<forall>rest. \<forall>s p c. c \<in> set (snd (visitsMembers data rest s p)) \<longrightarrow>
      (\<exists>n obj. occurs data p n obj (visitPath c) \<and> hasVersion obj \<and>
         c = (n @ '':'' @ versionOf obj, n, versionOf obj, s, visitPath c)))"
proof (induction rule: tree_induct)
  case (whole data)
  then show ?case by (auto simp: visits.simps split: sum.splits)
next
  case (nil data)
  show ?case by simp
next
  case (member data key val rest)
  show ?case
  proof (intro allI impI)
    fix s p c
    assume c: "c \<in> set (snd (visitsMembers data ((key, val) # rest) s p))"
    let ?dv = "case Get data [key, ''version''] of Inr v \<Rightarrow> rawText v | Inl err \<Rightarrow> []"
    let ?dk = "key @ '':'' @ ?dv"
    from c consider
        (own) v where "Get data [key, ''version''] = Inr v" "c = (?dk, key, ?dv, s, p)"
      | (below) t where "Get data [key, ''dependencies''] = Inr t"
          "c \<in> set (snd (visits t s (?dk # p)))"
      | (rest) "c \<in> set (snd (visitsMembers data rest s p))"
      by (auto simp: Let_def split: sum.splits option.splits if_splits)
    then show "\<exists>n obj. occurs data p n obj (visitPath c) \<and> hasVersion obj \<and>
         c = (n @ '':'' @ versionOf obj, n, versionOf obj, s, visitPath c)"
    proof cases
      case own
      from Get2_Inr [OF own(1)] obtain ms obj where
        d: "data = JObject ms" "map_of ms key = Some obj" "Get obj [''version''] = Inr v" by blast
      then have "occurs data p key obj p" by (simp add: occurs_top)
      moreover have "hasVersion obj" "versionOf obj = ?dv"
        using d own(1) by (simp_all add: hasVersion_def versionOf_def)
      ultimately show ?thesis using own(2) by (auto simp: visitPath_def)
    next
      case below
      from Get2_Inr [OF below(1)] obtain ms obj0 where
        d: "data = JObject ms" "map_of ms key = Some obj0" "Get obj0 [''dependencies''] = Inr t"
        by blast
      have dv: "versionOf obj0 = ?dv" using d by (simp add: versionOf_def)
      from member(2) [OF below(1)] below(2) obtain n obj where
        o: "occurs t (?dk # p) n obj (visitPath c)" "hasVersion obj"
           "c = (n @ '':'' @ versionOf obj, n, versionOf obj, s, visitPath c)" by blast
      have "occurs t ((key @ '':'' @ versionOf obj0) # p) n obj (visitPath c)"
        by (subst dv) (rule o(1))
      from occurs_nested [OF d(2) d(3) this] have "occurs data p n obj (visitPath c)"
        unfolding d(1) .
      with o show ?thesis by blast
    next
      case rest
      with member(1) show ?thesis by blast
    qed
  qed
qed

lemmas visits_sound = visits_sound_both [THEN conjunct1, rule_format]

lemma visits_scope:
  assumes "c \<in> set (snd (visits data s p))"
  shows "visitScope c = s"
proof -
  from visits_sound [OF assms] obtain n obj where
    "c = (n @ '':'' @ versionOf obj, n, versionOf obj, s, visitPath c)" by blast
  then have "fst (snd (snd (snd c))) = s" by (metis fst_conv snd_conv)
  then show ?thesis by (simp add: visitScope_def)
qed











lemma applyVisit_cases:
  "applyVisit g (k, n, v, s, p) k' =
     (if k' \<noteq> k then g k'
      else case g k of
             None \<Rightarrow> Some \<lparr>name = n, version = v, scopes = [s], fileType = [], checksum = None,
                             pathToRoot = [p]\<rparr>
           | Some d \<Rightarrow> Some (d\<lparr>scopes := (if s \<in> set (scopes d) then scopes d else scopes d @ [s]),
                               pathToRoot := pathToRoot d @ [p]\<rparr>))"
  by (simp add: appendDependency_other appendDependency_new appendDependency_old split: option.splits)

lemma distinctScopes_applyVisit: "distinctScopes g \<Longrightarrow> distinctScopes (applyVisit g c)"
  unfolding distinctScopes_def
  by (cases c) (auto simp: applyVisit_cases simp del: applyVisit_simp split: if_splits option.splits)

lemma distinctScopes_foldl: "distinctScopes g \<Longrightarrow> distinctScopes (foldl applyVisit g cs)"
  by (induction cs arbitrary: g) (simp_all add: distinctScopes_applyVisit del: applyVisit_simp)

lemma keyed_foldl:
  "keyed g \<Longrightarrow> \<forall>c \<in> set cs. \<exists>n v s p. c = (n @ '':'' @ v, n, v, s, p) \<Longrightarrow>
   keyed (foldl applyVisit g cs)"
proof (induction cs arbitrary: g)
  case Nil
  then show ?case by simp
next
  case (Cons c cs)
  from Cons.prems(2) obtain n v s p where c: "c = (n @ '':'' @ v, n, v, s, p)" by auto
  have "keyed (applyVisit g c)"
    using Cons.prems(1) unfolding keyed_def c
    by (auto simp: applyVisit_cases simp del: applyVisit_simp split: if_splits option.splits)
  with Cons show ?case by (simp del: applyVisit_simp)
qed

lemma scopes_foldl_uniform:
  assumes "\<forall>c \<in> set cs. visitScope c = s" "k \<in> visitKey ` set cs"
  shows "\<exists>d'. foldl applyVisit g cs k = Some d' \<and>
           scopes d' = (case g k of None \<Rightarrow> [s]
                        | Some d \<Rightarrow> if s \<in> set (scopes d) then scopes d else scopes d @ [s])"
  using assms
proof (induction cs arbitrary: g)
  case Nil
  then show ?case by simp
next
  case (Cons c cs)
  obtain k' n v s' p where c: "c = (k', n, v, s', p)" by (cases c)
  from Cons.prems(1) c have s': "s' = s" by (simp add: visitScope_def)
  let ?g1 = "applyVisit g c"
  have fold: "foldl applyVisit g (c # cs) = foldl applyVisit ?g1 cs" by simp
  show ?case
  proof (cases "k \<in> visitKey ` set cs")
    case True
    from Cons.IH [of ?g1] Cons.prems(1) True obtain d' where
      d': "foldl applyVisit ?g1 cs k = Some d'"
          "scopes d' = (case ?g1 k of None \<Rightarrow> [s]
                        | Some d \<Rightarrow> if s \<in> set (scopes d) then scopes d else scopes d @ [s])"
      by auto
    show ?thesis
      unfolding fold using d' unfolding c s'
      by (auto simp: applyVisit_cases simp del: applyVisit_simp split: option.splits if_splits)
  next
    case False
    with Cons.prems(2) have kk: "k = k'" by (auto simp: c visitKey_def)
    from False have "foldl applyVisit ?g1 cs k = ?g1 k" by (rule foldl_applyVisit_other)
    then show ?thesis
      unfolding fold unfolding c s' kk
      by (auto simp: applyVisit_cases simp del: applyVisit_simp split: option.splits if_splits)
  qed
qed


lemma prepareMembers_visits:
  "prepareMembers ms s m g =
     (fst (prepareVisits ms s m), foldl applyVisit g (snd (prepareVisits ms s m)))"
  by (induction ms arbitrary: g) (auto simp: parse_visits split: option.splits prod.splits)

lemma prepareVisits_scope: "c \<in> set (snd (prepareVisits ms s m)) \<Longrightarrow> visitScope c = s"
  by (induction ms) (auto simp: visits_scope split: option.splits if_splits)

lemma prepareDependencies_visits:
  "snd (prepareDependencies s data m g) = foldl applyVisit g (listVisits data s m)"
  by (cases data) (simp_all add: prepareMembers_visits listVisits_def)

lemma listVisits_scope: "c \<in> set (listVisits data s m) \<Longrightarrow> visitScope c = s"
  by (cases data) (auto simp: listVisits_def prepareVisits_scope)

lemma two_walks_scopes:
  assumes "s1 \<noteq> s2"
    and k1: "k \<in> dom (snd (prepareDependencies s1 data1 m Map.empty))"
    and k2: "k \<in> dom (snd (prepareDependencies s2 data2 m Map.empty))"
  shows "\<exists>d. snd (prepareDependencies s2 data2 m (snd (prepareDependencies s1 data1 m Map.empty))) k
              = Some d \<and> scopes d = [s1, s2]"
proof -
  let ?c1 = "listVisits data1 s1 m" and ?c2 = "listVisits data2 s2 m"
  from k1 have in1: "k \<in> visitKey ` set ?c1"
    by (simp add: prepareDependencies_visits dom_foldl_applyVisit)
  from k2 have in2: "k \<in> visitKey ` set ?c2"
    by (simp add: prepareDependencies_visits dom_foldl_applyVisit)
  have u1: "\<forall>c \<in> set ?c1. visitScope c = s1" and u2: "\<forall>c \<in> set ?c2. visitScope c = s2"
    by (auto simp: listVisits_scope)
  from scopes_foldl_uniform [OF u1 in1, of Map.empty] obtain d1 where
    d1: "foldl applyVisit Map.empty ?c1 k = Some d1" "scopes d1 = [s1]" by auto
  from scopes_foldl_uniform [OF u2 in2, of "foldl applyVisit Map.empty ?c1"] d1 assms(1)
  show ?thesis by (auto simp: prepareDependencies_visits)
qed





lemma parse_distinctScopes:
  "distinctScopes deps \<Longrightarrow> distinctScopes (snd (parseDependencies data scope p deps))"
  by (simp add: parse_visits distinctScopes_foldl)

lemma appendDependency_distinctScopes:
  "distinctScopes deps \<Longrightarrow> distinctScopes (appendDependency k n v s p deps)"
  using distinctScopes_applyVisit [of deps "(k, n, v, s, p)"] by simp

lemma prepare_distinctScopes:
  "distinctScopes deps \<Longrightarrow> distinctScopes (snd (prepareDependencies s data m deps))"
  by (simp add: prepareDependencies_visits distinctScopes_foldl)

lemma setDependenciesList_distinctScopes:
  "distinctScopes (snd (setDependenciesList r devData prodData m))"
proof -
  have e: "distinctScopes Map.empty" by (simp add: distinctScopes_def)
  obtain ed gd where gd: "prepareDependencies ''dev'' devData m Map.empty = (ed, gd)"
    by (cases "prepareDependencies ''dev'' devData m Map.empty")
  have dgd: "distinctScopes gd"
    using prepare_distinctScopes [OF e, of "''dev''" devData m] gd by simp
  show ?thesis
    unfolding setDependenciesList_def
    using e dgd prepare_distinctScopes [OF e, of "''prod''" prodData m]
      prepare_distinctScopes [OF dgd, of "''prod''" prodData m]
    by (cases ed) (simp_all add: gd)
qed

section \<open>The claims about the walk\<close>





text \<open>
  C3. A visit never puts a scope twice into a node's list: \<open>appendDependency\<close> keeps
  the lists free of duplicates, hence so do a walk from any map and
  \<open>setDependenciesList\<close> as a whole. A dependency that the \<open>dev\<close> listing and the
  \<open>prod\<close> listing both hold ends with the two scopes, each once, whichever listing is
  walked first; \<open>setDependenciesList\<close> walks \<open>dev\<close> first.
\<close>

theorem C3_scopes_once:
  "(\<forall>k n v s p deps.
      (\<forall>k' d. deps k' = Some d \<longrightarrow> distinct (scopes d)) \<longrightarrow>
      (\<forall>k' d. appendDependency k n v s p deps k' = Some d \<longrightarrow> distinct (scopes d))) \<and>
   (\<forall>data scope path deps.
      (\<forall>k d. deps k = Some d \<longrightarrow> distinct (scopes d)) \<longrightarrow>
      (\<forall>k d. snd (parseDependencies data scope path deps) k = Some d \<longrightarrow> distinct (scopes d))) \<and>
   (\<forall>r devData prodData m k d.
      snd (setDependenciesList r devData prodData m) k = Some d \<longrightarrow> distinct (scopes d)) \<and>
   (\<forall>devData prodData m k.
      k \<in> dom (snd (prepareDependencies ''dev'' devData m Map.empty)) \<and>
      k \<in> dom (snd (prepareDependencies ''prod'' prodData m Map.empty)) \<longrightarrow>
      (\<exists>d. snd (prepareDependencies ''prod'' prodData m
                 (snd (prepareDependencies ''dev'' devData m Map.empty))) k = Some d \<and>
            scopes d = [''dev'', ''prod'']) \<and>
      (\<exists>d. snd (prepareDependencies ''dev'' devData m
                 (snd (prepareDependencies ''prod'' prodData m Map.empty))) k = Some d \<and>
            scopes d = [''prod'', ''dev''])) \<and>
   (\<forall>r devData prodData m k.
      (r = defaultRestriction \<or> r = all) \<and>
      fst (prepareDependencies ''dev'' devData m Map.empty) = None \<and>
      k \<in> dom (snd (prepareDependencies ''dev'' devData m Map.empty)) \<and>
      k \<in> dom (snd (prepareDependencies ''prod'' prodData m Map.empty)) \<longrightarrow>
      (\<exists>d. snd (setDependenciesList r devData prodData m) k = Some d \<and>
            scopes d = [''dev'', ''prod'']))"
proof (intro conjI allI impI)
  fix k n v s p deps k' d
  assume "\<forall>k' d. deps k' = Some d \<longrightarrow> distinct (scopes d)"
    and "appendDependency k n v s p deps k' = Some d"
  with appendDependency_distinctScopes [of deps k n v s p]
  show "distinct (scopes d)" by (simp add: distinctScopes_def)
next
  fix data scope path deps k d
  assume "\<forall>k d. deps k = Some d \<longrightarrow> distinct (scopes d)"
    and "snd (parseDependencies data scope path deps) k = Some d"
  with parse_distinctScopes [of deps data scope path]
  show "distinct (scopes d)" by (simp add: distinctScopes_def)
next
  fix r devData prodData m k d
  assume "snd (setDependenciesList r devData prodData m) k = Some d"
  with setDependenciesList_distinctScopes [of r devData prodData m]
  show "distinct (scopes d)" by (simp add: distinctScopes_def)
next
  fix devData prodData m k
  assume a: "k \<in> dom (snd (prepareDependencies ''dev'' devData m Map.empty)) \<and>
      k \<in> dom (snd (prepareDependencies ''prod'' prodData m Map.empty))"
  show "\<exists>d. snd (prepareDependencies ''prod'' prodData m
                 (snd (prepareDependencies ''dev'' devData m Map.empty))) k = Some d \<and>
            scopes d = [''dev'', ''prod'']"
    using a by (intro two_walks_scopes) simp_all
  show "\<exists>d. snd (prepareDependencies ''dev'' devData m
                 (snd (prepareDependencies ''prod'' prodData m Map.empty))) k = Some d \<and>
            scopes d = [''prod'', ''dev'']"
    using a by (intro two_walks_scopes) simp_all
next
  fix r devData prodData m k
  assume a: "(r = defaultRestriction \<or> r = all) \<and>
      fst (prepareDependencies ''dev'' devData m Map.empty) = None \<and>
      k \<in> dom (snd (prepareDependencies ''dev'' devData m Map.empty)) \<and>
      k \<in> dom (snd (prepareDependencies ''prod'' prodData m Map.empty))"
  then have "snd (setDependenciesList r devData prodData m) =
      snd (prepareDependencies ''prod'' prodData m
             (snd (prepareDependencies ''dev'' devData m Map.empty)))"
    by (cases "prepareDependencies ''dev'' devData m Map.empty")
       (auto simp: setDependenciesList_def)
  moreover have "\<exists>d. snd (prepareDependencies ''prod'' prodData m
                 (snd (prepareDependencies ''dev'' devData m Map.empty))) k = Some d \<and>
            scopes d = [''dev'', ''prod'']"
    using a by (intro two_walks_scopes) simp_all
  ultimately show "\<exists>d. snd (setDependenciesList r devData prodData m) k = Some d \<and>
            scopes d = [''dev'', ''prod'']" by simp
qed

lemma scenarioListing_dom:
  "dom (snd (prepareDependencies s scenarioListing ''app@1.0.0'' Map.empty)) = {''a:1.0.0'', ''b:2.0.0''}"
  by (simp add: scenarioListing_def scenarioTree_def parseDependencies.simps appendDependency_def
      Let_def insert_commute)

theorem C3_scopes_once_witness:
  "fst (prepareDependencies ''dev'' scenarioListing ''app@1.0.0'' Map.empty) = None \<and>
   ''a:1.0.0'' \<in> dom (snd (prepareDependencies ''dev'' scenarioListing ''app@1.0.0'' Map.empty)) \<and>
   ''a:1.0.0'' \<in> dom (snd (prepareDependencies ''prod'' scenarioListing ''app@1.0.0'' Map.empty)) \<and>
   (\<exists>d. snd (setDependenciesList all scenarioListing scenarioListing ''app@1.0.0'') ''a:1.0.0''
           = Some d \<and> scopes d = [''dev'', ''prod''])"
proof -
  have ok: "fst (prepareDependencies ''dev'' scenarioListing ''app@1.0.0'' Map.empty) = None"
    by (simp add: scenarioListing_def scenarioTree_def parseDependencies.simps
        appendDependency_def Let_def)
  have h: "(all = defaultRestriction \<or> all = all) \<and>
      fst (prepareDependencies ''dev'' scenarioListing ''app@1.0.0'' Map.empty) = None \<and>
      ''a:1.0.0'' \<in> dom (snd (prepareDependencies ''dev'' scenarioListing ''app@1.0.0'' Map.empty)) \<and>
      ''a:1.0.0'' \<in> dom (snd (prepareDependencies ''prod'' scenarioListing ''app@1.0.0'' Map.empty))"
    using ok by (simp add: scenarioListing_dom)
  from C3_scopes_once [THEN conjunct2, THEN conjunct2, THEN conjunct2, THEN conjunct2,
      rule_format, OF h] h
  show ?thesis by simp
qed




section \<open>Lemmas about the configuration translator\<close>

lemma setTypeRestriction_step:
  "typeRestriction (setTypeRestriction key val nca) = restrictionStep (typeRestriction nca) (key, val)"
  by (simp add: setTypeRestriction_def restrictionStep_def)

lemma configLine_restriction:
  "typeRestriction (snd (configLine (fc, nca) l)) =
     (case directive l of None \<Rightarrow> typeRestriction nca
      | Some kv \<Rightarrow> restrictionStep (typeRestriction nca) kv)"
  by (auto simp: configLine_def directive_def Let_def setTypeRestriction_step
      split: prod.splits option.splits)

lemma foldl_configLine_restriction:
  "typeRestriction (snd (foldl configLine (fc, nca) ls)) =
     foldl restrictionStep (typeRestriction nca) (List.map_filter directive ls)"
proof (induction ls arbitrary: fc nca)
  case Nil
  show ?case by (simp add: List.map_filter_simps)
next
  case (Cons l ls)
  obtain fc1 nca1 where st: "configLine (fc, nca) l = (fc1, nca1)"
    by (cases "configLine (fc, nca) l")
  from configLine_restriction [of fc nca l] st have
    r: "typeRestriction nca1 = (case directive l of None \<Rightarrow> typeRestriction nca
      | Some kv \<Rightarrow> restrictionStep (typeRestriction nca) kv)" by simp
  show ?case
    using Cons [of fc1 nca1] r by (simp add: st List.map_filter_simps split: option.splits)
qed

lemma prepareConfigData_restriction:
  "typeRestriction (snd (prepareConfigData data nca)) =
     foldl restrictionStep (typeRestriction nca) (directives data)"
proof -
  obtain ls e where sc: "Scan data = (ls, e)" by (cases "Scan data")
  obtain fc1 nca1 where f: "foldl configLine ([], nca) ls = (fc1, nca1)"
    by (cases "foldl configLine ([], nca) ls")
  from foldl_configLine_restriction [of "[]" nca ls] f
  have "typeRestriction nca1 = foldl restrictionStep (typeRestriction nca) (List.map_filter directive ls)"
    by simp
  then show ?thesis
    by (simp add: prepareConfigData_def directives_def sc f split: option.splits)
qed

lemma restrictionStep_set:
  "r \<noteq> defaultRestriction \<Longrightarrow> fst kv \<noteq> ''omit'' \<Longrightarrow> restrictionStep r kv = r"
  by (cases kv) (simp add: restrictionStep_def)

lemma foldl_restrictionStep_set:
  "r \<noteq> defaultRestriction \<Longrightarrow> ''omit'' \<notin> fst ` set ds \<Longrightarrow> foldl restrictionStep r ds = r"
  by (induction ds) (auto simp: restrictionStep_set)

lemma restrictionStep_omit: "restrictionStep r (''omit'', v) = omitRestriction v"
  by (simp add: restrictionStep_def omitRestriction_def)

lemma omitRestriction_set: "omitRestriction v \<noteq> defaultRestriction"
  by (simp add: omitRestriction_def)

lemma restrictionStep_inert:
  "fst kv \<noteq> ''omit'' \<Longrightarrow> \<not> deprecatedDirective kv \<Longrightarrow> restrictionStep r kv = r"
  by (cases kv) (auto simp: restrictionStep_def deprecatedDirective_def)

lemma foldl_restrictionStep_inert:
  "''omit'' \<notin> fst ` set ds \<Longrightarrow> \<forall>d \<in> set ds. \<not> deprecatedDirective d \<Longrightarrow>
   foldl restrictionStep r ds = r"
  by (induction ds) (auto simp: restrictionStep_inert)

lemma restrictionStep_deprecated:
  "fst kv \<noteq> ''omit'' \<Longrightarrow> deprecatedDirective kv \<Longrightarrow>
   restrictionStep defaultRestriction kv = deprecatedRestriction kv \<and>
   deprecatedRestriction kv \<noteq> defaultRestriction"
  by (cases kv) (auto simp: restrictionStep_def deprecatedDirective_def deprecatedRestriction_def)

lemma restriction_omit:
  assumes "ds = pre @ [(''omit'', v)] @ post" "''omit'' \<notin> fst ` set post"
  shows "foldl restrictionStep r ds = omitRestriction v"
  using foldl_restrictionStep_set [OF omitRestriction_set assms(2), of v]
  by (simp add: assms(1) restrictionStep_omit)

lemma restriction_deprecated:
  assumes "''omit'' \<notin> fst ` set ds" "ds = pre @ [kv] @ post"
    "\<forall>d \<in> set pre. \<not> deprecatedDirective d" "deprecatedDirective kv"
  shows "foldl restrictionStep defaultRestriction ds = deprecatedRestriction kv"
proof -
  from assms(1,2) have no: "''omit'' \<notin> fst ` set pre" "fst kv \<noteq> ''omit''" "''omit'' \<notin> fst ` set post"
    by auto
  have "foldl restrictionStep defaultRestriction pre = defaultRestriction"
    by (rule foldl_restrictionStep_inert [OF no(1) assms(3)])
  moreover note restrictionStep_deprecated [OF no(2) assms(4)]
  ultimately show ?thesis
    using foldl_restrictionStep_set [OF _ no(3), of "deprecatedRestriction kv"]
    by (simp add: assms(2))
qed

lemma Scan_omitDump: "Scan omitDump = ([''omit = dev'', ''only = prod''], None)"
  by (simp add: Scan_def omitDump_def rawLines_def newline_def Let_def dropCR_def
      MaxScanTokenSize_def)

lemma Scan_productionDump: "Scan productionDump = ([''production = true''], None)"
  by (simp add: Scan_def productionDump_def rawLines_def newline_def Let_def dropCR_def
      MaxScanTokenSize_def)

lemma Scan_deprecatedDump:
  "Scan deprecatedDump = ([''loglevel = notice'', ''only = dev'', ''production = true''], None)"
  by (simp add: Scan_def deprecatedDump_def rawLines_def newline_def Let_def dropCR_def
      MaxScanTokenSize_def)

lemma directive_samples:
  "directive ''omit = dev'' = Some (''omit'', ''dev'')"
  "directive ''only = prod'' = Some (''only'', ''prod'')"
  "directive ''only = dev'' = Some (''only'', ''dev'')"
  "directive ''production = true'' = Some (''production'', ''true'')"
  "directive ''loglevel = notice'' = Some (''loglevel'', ''notice'')"
  by code_simp+

lemma directives_omitDump: "directives omitDump = [(''omit'', ''dev''), (''only'', ''prod'')]"
  by (simp add: directives_def Scan_omitDump List.map_filter_simps directive_samples)

lemma directives_productionDump: "directives productionDump = [(''production'', ''true'')]"
  by (simp add: directives_def Scan_productionDump List.map_filter_simps directive_samples)

lemma directives_deprecatedDump:
  "directives deprecatedDump =
     [(''loglevel'', ''notice''), (''only'', ''dev''), (''production'', ''true'')]"
  by (simp add: directives_def Scan_deprecatedDump List.map_filter_simps directive_samples)

lemma freshCommand_restriction: "typeRestriction freshCommand = defaultRestriction"
  by (simp add: freshCommand_def)

lemma restriction_omitDump: "typeRestriction (snd (prepareConfigData omitDump freshCommand)) = prodOnly"
  by (simp add: prepareConfigData_restriction directives_omitDump freshCommand_restriction
      restrictionStep_def)

lemma restriction_productionDump:
  "typeRestriction (snd (prepareConfigData productionDump freshCommand)) = prodOnly"
  by (simp add: prepareConfigData_restriction directives_productionDump freshCommand_restriction
      restrictionStep_def)

text \<open>
  C2. The restriction a dump leaves is decided by its directives in this order. When
  the dump has a line with key \<open>omit\<close>, the last such line decides, whatever stands
  before or after it under other keys: a value that holds \<open>dev\<close> gives \<open>prodOnly\<close>, any
  other value gives \<open>all\<close>. When it has none and no restriction was set before, the
  first deprecated directive decides (\<open>only\<close> with \<open>prod\<close> gives \<open>prodOnly\<close>, else
  \<open>only\<close> with \<open>dev\<close> gives \<open>devOnly\<close>, \<open>production\<close> with \<open>true\<close> gives
  \<open>prodOnly\<close>) and the later ones are ignored; with no such directive either, the
  restriction stays as it was. The dump with \<open>omit = dev\<close> and \<open>only = prod\<close> gives
  \<open>prodOnly\<close>, and so does the dump with \<open>production = true\<close> alone.
\<close>

theorem C2_restriction_priority:
  "(\<forall>data nca pre v post.
      directives data = pre @ [(''omit'', v)] @ post \<and> ''omit'' \<notin> fst ` set post \<longrightarrow>
      typeRestriction (snd (prepareConfigData data nca)) =
        (if Contains v ''dev'' then prodOnly else all)) \<and>
   (\<forall>data nca pre kv post.
      typeRestriction nca = defaultRestriction \<and>
      ''omit'' \<notin> fst ` set (directives data) \<and>
      directives data = pre @ [kv] @ post \<and>
      (\<forall>d \<in> set pre. \<not> deprecatedDirective d) \<and> deprecatedDirective kv \<longrightarrow>
      typeRestriction (snd (prepareConfigData data nca)) = deprecatedRestriction kv) \<and>
   (\<forall>data nca.
      ''omit'' \<notin> fst ` set (directives data) \<and>
      (\<forall>d \<in> set (directives data). \<not> deprecatedDirective d) \<longrightarrow>
      typeRestriction (snd (prepareConfigData data nca)) = typeRestriction nca) \<and>
   typeRestriction (snd (prepareConfigData omitDump freshCommand)) = prodOnly \<and>
   typeRestriction (snd (prepareConfigData productionDump freshCommand)) = prodOnly"
proof (intro conjI allI impI)
  fix data and nca :: NpmCommandArgs and pre v post
  assume a: "directives data = pre @ [(''omit'', v)] @ post \<and> ''omit'' \<notin> fst ` set post"
  from restriction_omit [of "directives data" pre v post "typeRestriction nca"] a
  show "typeRestriction (snd (prepareConfigData data nca)) =
        (if Contains v ''dev'' then prodOnly else all)"
    by (simp add: prepareConfigData_restriction omitRestriction_def)
next
  fix data and nca :: NpmCommandArgs and pre kv post
  assume a: "typeRestriction nca = defaultRestriction \<and>
      ''omit'' \<notin> fst ` set (directives data) \<and>
      directives data = pre @ [kv] @ post \<and>
      (\<forall>d \<in> set pre. \<not> deprecatedDirective d) \<and> deprecatedDirective kv"
  then have a1: "typeRestriction nca = defaultRestriction"
    and a2: "''omit'' \<notin> fst ` set (directives data)"
    and a3: "directives data = pre @ [kv] @ post"
    and a4: "\<forall>d \<in> set pre. \<not> deprecatedDirective d"
    and a5: "deprecatedDirective kv"
    by blast+
  from restriction_deprecated [OF a2 a3 a4 a5] a1
  show "typeRestriction (snd (prepareConfigData data nca)) = deprecatedRestriction kv"
    by (simp only: prepareConfigData_restriction)
next
  fix data and nca :: NpmCommandArgs
  assume a: "''omit'' \<notin> fst ` set (directives data) \<and>
      (\<forall>d \<in> set (directives data). \<not> deprecatedDirective d)"
  from foldl_restrictionStep_inert [of "directives data" "typeRestriction nca"] a
  show "typeRestriction (snd (prepareConfigData data nca)) = typeRestriction nca"
    by (simp add: prepareConfigData_restriction)
next
  show "typeRestriction (snd (prepareConfigData omitDump freshCommand)) = prodOnly"
    by (rule restriction_omitDump)
  show "typeRestriction (snd (prepareConfigData productionDump freshCommand)) = prodOnly"
    by (rule restriction_productionDump)
qed

theorem C2_restriction_priority_witness:
  "directives omitDump = [] @ [(''omit'', ''dev'')] @ [(''only'', ''prod'')] \<and>
   typeRestriction (snd (prepareConfigData omitDump freshCommand)) = prodOnly \<and>
   directives deprecatedDump =
     [(''loglevel'', ''notice'')] @ [(''only'', ''dev'')] @ [(''production'', ''true'')] \<and>
   typeRestriction (snd (prepareConfigData deprecatedDump freshCommand)) = devOnly"
proof -
  have o: "directives omitDump = [] @ [(''omit'', ''dev'')] @ [(''only'', ''prod'')] \<and>
      ''omit'' \<notin> fst ` set [(''only'', ''prod'')]"
    by (simp add: directives_omitDump)
  have d: "typeRestriction freshCommand = defaultRestriction \<and>
      ''omit'' \<notin> fst ` set (directives deprecatedDump) \<and>
      directives deprecatedDump =
        [(''loglevel'', ''notice'')] @ [(''only'', ''dev'')] @ [(''production'', ''true'')] \<and>
      (\<forall>d \<in> set [(''loglevel'', ''notice'')]. \<not> deprecatedDirective d) \<and>
      deprecatedDirective (''only'', ''dev'')"
    by (simp add: directives_deprecatedDump freshCommand_restriction deprecatedDirective_def)
  note t = C2_restriction_priority
  from t [THEN conjunct1, rule_format, OF o, of freshCommand]
    t [THEN conjunct2, THEN conjunct1, rule_format, OF d] o d
  show ?thesis by (simp add: deprecatedRestriction_def)
qed

section \<open>Lemmas about the manifest\<close>

lemma transform_ids:
  assumes "keyed (dependencies nca)"
  shows "map Id (fst (foldl (transformStep nca) acc order)) =
           map Id (fst acc) @ filter (isResolved (dependencies nca)) order \<and>
         map Id (snd (foldl (transformStep nca) acc order)) =
           map Id (snd acc) @ filter (isMissing (dependencies nca)) order"
proof (induction order arbitrary: acc)
  case Nil
  show ?case by simp
next
  case (Cons k order)
  obtain r m where acc: "acc = (r, m)" by (cases acc)
  show ?case
  proof (cases "dependencies nca k")
    case None
    then show ?thesis
      using Cons [of acc] by (simp add: acc transformStep_def isResolved_def isMissing_def)
  next
    case (Some d)
    with assms have k: "k = name d @ '':'' @ version d" by (simp add: keyed_def)
    show ?thesis
      using Cons [of "transformStep nca acc k"] Some k
      by (auto simp: acc transformStep_def isResolved_def isMissing_def Let_def)
  qed
qed

lemma transform_checksums:
  "(\<forall>b \<in> set (fst acc). Checksum b \<noteq> None) \<Longrightarrow> (\<forall>b \<in> set (snd acc). Checksum b = None) \<Longrightarrow>
   (\<forall>b \<in> set (fst (foldl (transformStep nca) acc order)). Checksum b \<noteq> None) \<and>
   (\<forall>b \<in> set (snd (foldl (transformStep nca) acc order)). Checksum b = None)"
proof (induction order arbitrary: acc)
  case Nil
  then show ?case by simp
next
  case (Cons k order)
  obtain r m where acc: "acc = (r, m)" by (cases acc)
  have "(\<forall>b \<in> set (fst (transformStep nca acc k)). Checksum b \<noteq> None) \<and>
        (\<forall>b \<in> set (snd (transformStep nca acc k)). Checksum b = None)"
    using Cons.prems by (auto simp: acc transformStep_def Let_def split: option.splits)
  with Cons.IH [of "transformStep nca acc k"] show ?case by simp
qed

section \<open>Lemmas about the enrichment pass\<close>

lemma enriched_name [simp]: "name (enriched w t d) = name d"
  by (simp add: enriched_def split: prod.splits)

lemma enriched_version [simp]: "version (enriched w t d) = version d"
  by (simp add: enriched_def split: prod.splits)


lemma getDependencyInfoTask_deps:
  "dependencies (snd (getDependencyInfoTask w k t nca)) = enrichNode w k t (dependencies nca)"
  by (rule ext)
     (auto simp: getDependencyInfoTask_def enrichNode_def enriched_def
       split: option.splits prod.splits)



lemma runTask_deps:
  "dependencies (snd (runTask w (q, nca) (k, t))) = enrichNode w k t (dependencies nca)"
  using getDependencyInfoTask_deps [of w k t "nca\<lparr>effects := effects nca @ [FetchDependencyInfo k]\<rparr>"]
  by (auto simp: runTask_def split: prod.splits)
















lemma keyed_enrichNode: "keyed deps \<Longrightarrow> keyed (enrichNode w k t deps)"
  by (auto simp: keyed_def enrichNode_def split: if_splits)

lemma keyed_foldl_runTask:
  "keyed (dependencies nca) \<Longrightarrow> keyed (dependencies (snd (foldl (runTask w) (q, nca) sch)))"
proof (induction sch arbitrary: q nca)
  case Nil
  then show ?case by simp
next
  case (Cons task sch)
  obtain k t where task: "task = (k, t)" by (cases task)
  obtain q1 nca1 where step: "runTask w (q, nca) (k, t) = (q1, nca1)"
    by (cases "runTask w (q, nca) (k, t)")
  from runTask_deps [of w q nca k t] have "dependencies nca1 = enrichNode w k t (dependencies nca)"
    by (simp add: step)
  with Cons.prems have "keyed (dependencies nca1)" by (simp add: keyed_enrichNode)
  from Cons.IH [OF this, of q1] show ?case by (simp add: task step)
qed

lemma keyed_collect:
  "keyed (dependencies nca) \<Longrightarrow> keyed (dependencies (snd (collectDependenciesChecksums w nca)))"
  using keyed_foldl_runTask [of nca w "[]" "schedule w"]
  by (auto simp: collectDependenciesChecksums_def split: option.splits prod.splits)

lemma keyed_empty: "keyed Map.empty"
  by (simp add: keyed_def)

lemma visits_keyed: "c \<in> set (snd (visits data s p)) \<Longrightarrow> \<exists>n v s p. c = (n @ '':'' @ v, n, v, s, p)"
  using visits_sound [of c data s p] by blast

lemma prepareVisits_keyed:
  "c \<in> set (snd (prepareVisits ms s m)) \<Longrightarrow> \<exists>n v s p. c = (n @ '':'' @ v, n, v, s, p)"
proof (induction ms)
  case Nil
  then show ?case by simp
next
  case (Cons kv ms)
  obtain key val where kv: "kv = (key, val)" by (cases kv)
  from Cons.prems consider "c \<in> set (snd (visits val s [m]))" | "c \<in> set (snd (prepareVisits ms s m))"
    by (auto simp: kv split: if_splits option.splits)
  then show ?case
    using Cons.IH visits_keyed by cases blast+
qed

lemma keyed_prepare:
  assumes "keyed deps"
  shows "keyed (snd (prepareDependencies s data m deps))"
proof -
  have "\<forall>c \<in> set (listVisits data s m). \<exists>n v s p. c = (n @ '':'' @ v, n, v, s, p)"
    by (cases data) (auto simp: listVisits_def dest: prepareVisits_keyed)
  from keyed_foldl [OF assms this] show ?thesis by (simp add: prepareDependencies_visits)
qed

lemma keyed_setDependenciesList: "keyed (snd (setDependenciesList r devData prodData m))"
proof -
  obtain ed gd where gd: "prepareDependencies ''dev'' devData m Map.empty = (ed, gd)"
    by (cases "prepareDependencies ''dev'' devData m Map.empty")
  have kgd: "keyed gd"
    using keyed_prepare [OF keyed_empty, of "''dev''" devData m] gd by simp
  show ?thesis
    unfolding setDependenciesList_def
    using keyed_empty kgd keyed_prepare [OF keyed_empty, of "''prod''" prodData m]
      keyed_prepare [OF kgd, of "''prod''" prodData m]
    by (cases ed) (simp_all add: gd)
qed



section \<open>The partition of the manifest\<close>

lemma count_list_distinct:
  "distinct xs \<Longrightarrow> count_list xs k = (if k \<in> set xs then 1 else 0)"
  by (induction xs) auto

lemma transform_lists:
  assumes "keyed (dependencies nca)"
  shows "map Id (fst (transformDependencies order nca)) = filter (isResolved (dependencies nca)) order"
    and "map Id (snd (transformDependencies order nca)) = filter (isMissing (dependencies nca)) order"
  using transform_ids [OF assms, of "([], [])" order] by (simp_all add: transformDependencies_def)

lemma transform_partition:
  assumes k: "keyed (dependencies nca)" and o: "mapOrder (dependencies nca) order"
  shows "Id ` set (fst (transformDependencies order nca)) \<union>
           Id ` set (snd (transformDependencies order nca)) = dom (dependencies nca)"
    and "Id ` set (fst (transformDependencies order nca)) \<inter>
           Id ` set (snd (transformDependencies order nca)) = {}"
proof -
  have r: "Id ` set (fst (transformDependencies order nca)) =
      {k \<in> set order. isResolved (dependencies nca) k}"
    using transform_lists(1) [OF k, of order] by (metis set_filter set_map)
  have m: "Id ` set (snd (transformDependencies order nca)) =
      {k \<in> set order. isMissing (dependencies nca) k}"
    using transform_lists(2) [OF k, of order] by (metis set_filter set_map)
  from o have so: "set order = dom (dependencies nca)" by (simp add: mapOrder_def)
  show "Id ` set (fst (transformDependencies order nca)) \<union>
           Id ` set (snd (transformDependencies order nca)) = dom (dependencies nca)"
    unfolding r m so by (auto simp: isResolved_def isMissing_def split: option.splits)
  show "Id ` set (fst (transformDependencies order nca)) \<inter>
           Id ` set (snd (transformDependencies order nca)) = {}"
    unfolding r m by (auto simp: isResolved_def isMissing_def split: option.splits)
qed

lemma transform_once:
  assumes k: "keyed (dependencies nca)" and o: "mapOrder (dependencies nca) order"
    and d: "dependencies nca key = Some d"
  shows "checksum d \<noteq> None \<Longrightarrow>
           count_list (map Id (fst (transformDependencies order nca))) key = 1 \<and>
           key \<notin> Id ` set (snd (transformDependencies order nca))"
    and "checksum d = None \<Longrightarrow>
           count_list (map Id (snd (transformDependencies order nca))) key = 1 \<and>
           key \<notin> Id ` set (fst (transformDependencies order nca))"
proof -
  from o d have mem: "key \<in> set order" and dist: "distinct order"
    by (auto simp: mapOrder_def)
  have m: "Id ` set (snd (transformDependencies order nca)) =
      {k \<in> set order. isMissing (dependencies nca) k}"
    using transform_lists(2) [OF k, of order] by (metis set_filter set_map)
  have r: "Id ` set (fst (transformDependencies order nca)) =
      {k \<in> set order. isResolved (dependencies nca) k}"
    using transform_lists(1) [OF k, of order] by (metis set_filter set_map)
  show "count_list (map Id (fst (transformDependencies order nca))) key = 1 \<and>
           key \<notin> Id ` set (snd (transformDependencies order nca))" if "checksum d \<noteq> None"
    using that d mem dist unfolding m transform_lists(1) [OF k]
    by (simp add: count_list_distinct isResolved_def isMissing_def)
  show "count_list (map Id (snd (transformDependencies order nca))) key = 1 \<and>
           key \<notin> Id ` set (fst (transformDependencies order nca))" if "checksum d = None"
    using that d mem dist unfolding r transform_lists(2) [OF k]
    by (simp add: count_list_distinct isResolved_def isMissing_def)
qed

lemma transform_sides:
  "(\<forall>b \<in> set (fst (transformDependencies order nca)). Checksum b \<noteq> None) \<and>
   (\<forall>b \<in> set (snd (transformDependencies order nca)). Checksum b = None)"
  using transform_checksums [of "([], [])" nca order] by (simp add: transformDependencies_def)

text \<open>
  C6. A map is keyed when every node stands under the key \<open>name:version\<close>, which is
  the identity the manifest gives it; the map \<open>setDependenciesList\<close> builds is keyed
  and the enrichment pass keeps it so. For a keyed map, ranged over in any order, every
  node is in exactly one of the two sequences, once: in the first when its checksum is
  present, in the second when it is absent. The identities of the two sequences
  together are the keys of the map, and no identity is in both.
\<close>

theorem C6_partition:
  "(\<forall>nca order.
      keyed (dependencies nca) \<and> mapOrder (dependencies nca) order \<longrightarrow>
      (\<forall>key d. dependencies nca key = Some d \<longrightarrow>
         (checksum d \<noteq> None \<longrightarrow>
            count_list (map Id (fst (transformDependencies order nca))) key = 1 \<and>
            key \<notin> Id ` set (snd (transformDependencies order nca))) \<and>
         (checksum d = None \<longrightarrow>
            count_list (map Id (snd (transformDependencies order nca))) key = 1 \<and>
            key \<notin> Id ` set (fst (transformDependencies order nca)))) \<and>
      Id ` set (fst (transformDependencies order nca)) \<union>
        Id ` set (snd (transformDependencies order nca)) = dom (dependencies nca) \<and>
      Id ` set (fst (transformDependencies order nca)) \<inter>
        Id ` set (snd (transformDependencies order nca)) = {} \<and>
      (\<forall>b \<in> set (fst (transformDependencies order nca)). Checksum b \<noteq> None) \<and>
      (\<forall>b \<in> set (snd (transformDependencies order nca)). Checksum b = None)) \<and>
   (\<forall>r devData prodData m. keyed (snd (setDependenciesList r devData prodData m))) \<and>
   (\<forall>w nca. keyed (dependencies nca) \<longrightarrow>
      keyed (dependencies (snd (collectDependenciesChecksums w nca))))"
proof (intro conjI allI impI)
  fix nca :: NpmCommandArgs and order
  assume a: "keyed (dependencies nca) \<and> mapOrder (dependencies nca) order"
  then have k: "keyed (dependencies nca)" and o: "mapOrder (dependencies nca) order" by blast+
  show "Id ` set (fst (transformDependencies order nca)) \<union>
        Id ` set (snd (transformDependencies order nca)) = dom (dependencies nca)"
    by (rule transform_partition(1) [OF k o])
  show "Id ` set (fst (transformDependencies order nca)) \<inter>
        Id ` set (snd (transformDependencies order nca)) = {}"
    by (rule transform_partition(2) [OF k o])
  show "\<forall>b \<in> set (fst (transformDependencies order nca)). Checksum b \<noteq> None"
    using transform_sides [of order nca] by blast
  show "\<forall>b \<in> set (snd (transformDependencies order nca)). Checksum b = None"
    using transform_sides [of order nca] by blast
  fix key d
  assume d: "dependencies nca key = Some d"
  {
    assume c: "checksum d \<noteq> None"
    show "count_list (map Id (fst (transformDependencies order nca))) key = 1"
      using transform_once(1) [OF k o d c] by blast
    show "key \<notin> Id ` set (snd (transformDependencies order nca))"
      using transform_once(1) [OF k o d c] by blast
  }
  {
    assume c: "checksum d = None"
    show "count_list (map Id (snd (transformDependencies order nca))) key = 1"
      using transform_once(2) [OF k o d c] by blast
    show "key \<notin> Id ` set (fst (transformDependencies order nca))"
      using transform_once(2) [OF k o d c] by blast
  }
next
  fix r devData prodData m
  show "keyed (snd (setDependenciesList r devData prodData m))"
    by (rule keyed_setDependenciesList)
next
  fix w :: world and nca :: NpmCommandArgs
  assume "keyed (dependencies nca)"
  then show "keyed (dependencies (snd (collectDependenciesChecksums w nca)))"
    by (rule keyed_collect)
qed

theorem C6_partition_witness:
  "keyed (dependencies enrichedCommand) \<and>
   mapOrder (dependencies enrichedCommand) [''d:4.0.0'', ''c:3.0.0''] \<and>
   map Id (fst (transformDependencies [''d:4.0.0'', ''c:3.0.0''] enrichedCommand)) = [''d:4.0.0''] \<and>
   map Id (snd (transformDependencies [''d:4.0.0'', ''c:3.0.0''] enrichedCommand)) = [''c:3.0.0''] \<and>
   Id ` set (fst (transformDependencies [''d:4.0.0'', ''c:3.0.0''] enrichedCommand)) \<inter>
     Id ` set (snd (transformDependencies [''d:4.0.0'', ''c:3.0.0''] enrichedCommand)) = {}"
proof -
  have h: "keyed (dependencies enrichedCommand) \<and>
      mapOrder (dependencies enrichedCommand) [''d:4.0.0'', ''c:3.0.0'']"
    by (auto simp: keyed_def mapOrder_def enrichedCommand_def sampleNode_def split: if_splits)
  have e: "map Id (fst (transformDependencies [''d:4.0.0'', ''c:3.0.0''] enrichedCommand)) =
        [''d:4.0.0''] \<and>
      map Id (snd (transformDependencies [''d:4.0.0'', ''c:3.0.0''] enrichedCommand)) =
        [''c:3.0.0'']"
    by (simp add: transformDependencies_def transformStep_def enrichedCommand_def sampleNode_def
        Let_def)
  from C6_partition [THEN conjunct1, rule_format, OF h] h e show ?thesis by blast
qed

section \<open>Lemmas about the command\<close>

lemma andThen_simps [simp]:
  "andThen (Some err, nca) f = (Some err, nca)"
  "andThen (None, nca) f = f nca"
  by (simp_all add: andThen_def)

lemma andThen_Some: "fst r = Some err \<Longrightarrow> andThen r f = r"
  by (cases r) (auto simp: andThen_def)

lemma andThen_None: "fst r = None \<Longrightarrow> andThen r f = f (snd r)"
  by (cases r) (auto simp: andThen_def)

lemma Contains_append: "Contains (pre @ sub @ post) sub"
proof (induction pre)
  case Nil
  show ?case
  proof (cases "sub @ post")
    case Nil
    then show ?thesis by simp
  next
    case (Cons a list)
    have "prefix sub (sub @ post)" by simp
    then have "prefix sub (a # list)" by (simp only: Cons)
    then show ?thesis by (simp add: Cons)
  qed
next
  case (Cons c pre)
  then show ?case by simp
qed

lemma Error_twoErrors:
  "Error (twoErrors restoreErr err) =
     ''Two errors occurred:'' @ newline @ '' '' @ Error restoreErr @ newline @ '' '' @ Error err"
  by (simp add: twoErrors_def)

lemma twoErrors_Contains:
  "Contains (Error (twoErrors restoreErr err)) (Error restoreErr)"
  "Contains (Error (twoErrors restoreErr err)) (Error err)"
proof -
  have "Error (twoErrors restoreErr err) =
      (''Two errors occurred:'' @ newline @ '' '') @ Error restoreErr @ (newline @ '' '' @ Error err)"
    by (simp add: Error_twoErrors)
  then show "Contains (Error (twoErrors restoreErr err)) (Error restoreErr)"
    by (simp only: Contains_append)
  have "Error (twoErrors restoreErr err) =
      (''Two errors occurred:'' @ newline @ '' '' @ Error restoreErr @ newline @ '' '') @ Error err @ []"
    by (simp add: Error_twoErrors)
  then show "Contains (Error (twoErrors restoreErr err)) (Error err)"
    by (simp only: Contains_append)
qed

lemma restoreNpmrcAndError_fst:
  "fst (restoreNpmrcAndError w err nca) =
     (case restoreNpmrcFunc w of None \<Rightarrow> Some err | Some restoreErr \<Rightarrow> Some (twoErrors restoreErr err))"
  by (simp add: restoreNpmrcAndError_def callRestoreNpmrcFunc_def split: option.splits)

lemma restoreNpmrcAndError_effects:
  "effects (snd (restoreNpmrcAndError w err nca)) = effects nca @ [RestoreNpmrc]"
  by (simp add: restoreNpmrcAndError_def callRestoreNpmrcFunc_def split: option.splits)

lemma run_prerequisites_fail:
  "fst (preparePrerequisites w nca) = Some err \<Longrightarrow> run w nca = preparePrerequisites w nca"
  by (cases "preparePrerequisites w nca") (auto simp: run_def)

lemma run_createTempNpmrc_fail:
  assumes "fst (preparePrerequisites w nca) = None"
    "fst (createTempNpmrc w (snd (preparePrerequisites w nca))) = Some err"
  shows "run w nca =
     restoreNpmrcAndError w err (snd (createTempNpmrc w (snd (preparePrerequisites w nca))))"
  using assms
  by (cases "preparePrerequisites w nca"; cases "createTempNpmrc w (snd (preparePrerequisites w nca))")
     (auto simp: run_def)

lemma run_runInstallOrCi_fail:
  assumes "fst (preparePrerequisites w nca) = None"
    "fst (createTempNpmrc w (snd (preparePrerequisites w nca))) = None"
    "fst (runInstallOrCi w (snd (createTempNpmrc w (snd (preparePrerequisites w nca))))) = Some err"
  shows "run w nca =
     restoreNpmrcAndError w err
       (snd (runInstallOrCi w (snd (createTempNpmrc w (snd (preparePrerequisites w nca))))))"
  using assms
  by (cases "preparePrerequisites w nca";
      cases "createTempNpmrc w (snd (preparePrerequisites w nca))";
      cases "runInstallOrCi w (snd (createTempNpmrc w (snd (preparePrerequisites w nca))))")
     (auto simp: run_def)

lemma run_installed:
  assumes "fst (preparePrerequisites w nca) = None"
    "fst (createTempNpmrc w (snd (preparePrerequisites w nca))) = None"
    "fst (runInstallOrCi w (snd (createTempNpmrc w (snd (preparePrerequisites w nca))))) = None"
    "\<not> collectBuildInfo (snd (runInstallOrCi w (snd (createTempNpmrc w (snd (preparePrerequisites w nca))))))"
  shows "run w nca =
     callRestoreNpmrcFunc w
       (snd (runInstallOrCi w (snd (createTempNpmrc w (snd (preparePrerequisites w nca))))))"
  using assms
  by (cases "preparePrerequisites w nca";
      cases "createTempNpmrc w (snd (preparePrerequisites w nca))";
      cases "runInstallOrCi w (snd (createTempNpmrc w (snd (preparePrerequisites w nca))))")
     (auto simp: run_def callRestoreNpmrcFunc_def split: option.splits)

text \<open>The steps of the prerequisites before the backup leave the effects alone.\<close>

lemma setNpmExecutable_effects: "effects (snd (setNpmExecutable w nca)) = effects nca"
  by (simp add: setNpmExecutable_def split: sum.splits)

lemma setNpmExecutable_command: "command (snd (setNpmExecutable w nca)) = command nca"
  by (simp add: setNpmExecutable_def split: sum.splits)

lemma validateNpmVersion_effects: "effects (snd (validateNpmVersion w nca)) = effects nca"
  by (simp add: validateNpmVersion_def split: sum.splits)

lemma setJsonOutput_effects: "effects (snd (setJsonOutput w nca)) = effects nca"
  by (simp add: setJsonOutput_def split: sum.splits)

lemma prerequisites_validate_fail:
  assumes "fst (setNpmExecutable w nca) = None"
    "fst (validateNpmVersion w (snd (setNpmExecutable w nca))) = Some err"
  shows "preparePrerequisites w nca = validateNpmVersion w (snd (setNpmExecutable w nca))"
  using assms
  by (simp add: preparePrerequisites_def andThen_None andThen_Some)

lemma prerequisites_json_fail:
  assumes "fst (setNpmExecutable w nca) = None"
    "fst (validateNpmVersion w (snd (setNpmExecutable w nca))) = None"
    "fst (setJsonOutput w (snd (validateNpmVersion w (snd (setNpmExecutable w nca))))) = Some err"
  shows "preparePrerequisites w nca =
     setJsonOutput w (snd (validateNpmVersion w (snd (setNpmExecutable w nca))))"
  using assms
  by (simp add: preparePrerequisites_def andThen_None andThen_Some)

lemma foldl_configLine_only_restriction:
  "\<exists>r. snd (foldl configLine (fc, nca) ls) = nca\<lparr>typeRestriction := r\<rparr>"
proof (induction ls arbitrary: fc nca)
  case Nil
  have "nca = nca\<lparr>typeRestriction := typeRestriction nca\<rparr>" by simp
  then show ?case by (metis foldl_Nil snd_conv)
next
  case (Cons l ls)
  obtain fc1 nca1 where st: "configLine (fc, nca) l = (fc1, nca1)"
    by (cases "configLine (fc, nca) l")
  have "\<exists>r. nca1 = nca\<lparr>typeRestriction := r\<rparr>"
  proof -
    have "nca = nca\<lparr>typeRestriction := typeRestriction nca\<rparr>" by simp
    moreover have "nca1 = nca \<or> (\<exists>r. nca1 = nca\<lparr>typeRestriction := r\<rparr>)"
      using st
      by (auto simp: configLine_def setTypeRestriction_def Let_def
          split: prod.splits option.splits if_splits)
    ultimately show ?thesis by metis
  qed
  then obtain r1 where r1: "nca1 = nca\<lparr>typeRestriction := r1\<rparr>" by blast
  from Cons [of fc1 nca1] obtain r where "snd (foldl configLine (fc1, nca1) ls) = nca1\<lparr>typeRestriction := r\<rparr>"
    by blast
  then have "snd (foldl configLine (fc, nca) (l # ls)) = nca\<lparr>typeRestriction := r\<rparr>"
    by (simp add: st r1)
  then show ?case by blast
qed

lemma prepareConfigData_only_restriction:
  "\<exists>r. snd (prepareConfigData data nca) = nca\<lparr>typeRestriction := r\<rparr>"
proof -
  obtain ls e where sc: "Scan data = (ls, e)" by (cases "Scan data")
  obtain fc1 nca1 where f: "foldl configLine ([], nca) ls = (fc1, nca1)"
    by (cases "foldl configLine ([], nca) ls")
  from foldl_configLine_only_restriction [of "[]" nca ls] f
  obtain r where "nca1 = nca\<lparr>typeRestriction := r\<rparr>" by auto
  then show ?thesis
    by (auto simp: prepareConfigData_def sc f split: option.splits)
qed

lemma prepareConfigData_fst:
  "snd (Scan data) = None \<Longrightarrow> \<exists>configData. fst (prepareConfigData data nca) = Inr configData"
  by (auto simp: prepareConfigData_def split: prod.splits option.splits)

lemma createTempNpmrc_fst:
  "snd (Scan (getConfigList w)) = None \<Longrightarrow> statNpmrc w = NotExist \<Longrightarrow>
   fst (createTempNpmrc w nca) = writeNpmrc w"
  using prepareConfigData_fst [of "getConfigList w" nca]
  by (cases "prepareConfigData (getConfigList w) nca")
     (auto simp: createTempNpmrc_def removeNpmrcIfExists_def)

lemma createTempNpmrc_fields:
  "collectBuildInfo (snd (createTempNpmrc w nca)) = collectBuildInfo nca"
  "npmArgs (snd (createTempNpmrc w nca)) = npmArgs nca"
  "command (snd (createTempNpmrc w nca)) = command nca"
  "dependencies (snd (createTempNpmrc w nca)) = dependencies nca"
proof -
  obtain r where r: "snd (prepareConfigData (getConfigList w) nca) = nca\<lparr>typeRestriction := r\<rparr>"
    using prepareConfigData_only_restriction by blast
  obtain c n1 where p: "prepareConfigData (getConfigList w) nca = (c, n1)"
    by (cases "prepareConfigData (getConfigList w) nca")
  with r have n1: "n1 = nca\<lparr>typeRestriction := r\<rparr>" by simp
  show "collectBuildInfo (snd (createTempNpmrc w nca)) = collectBuildInfo nca"
    "npmArgs (snd (createTempNpmrc w nca)) = npmArgs nca"
    "command (snd (createTempNpmrc w nca)) = command nca"
    "dependencies (snd (createTempNpmrc w nca)) = dependencies nca"
    by (auto simp: createTempNpmrc_def removeNpmrcIfExists_def p n1 andThen_def
        split: sum.splits statResult.splits option.splits)
qed

lemma runInstallOrCi_fst: "fst (runInstallOrCi w nca) = runCmd w"
  by (simp add: runInstallOrCi_def Let_def)

lemma sample_prerequisites:
  "lookPath w = Inr ''/usr/bin/npm'' \<Longrightarrow> npmVersionOutput w = Inr [6, 14, 8] \<Longrightarrow>
   configGetJson w = Inr v \<Longrightarrow> getWorkingDirectory w = Inr dir \<Longrightarrow>
   createArtAuthConfig w = Inr False \<Longrightarrow> getArtifactoryNpmRepoDetails w = Inr (auth, reg) \<Longrightarrow>
   prepareBuildInfo w = Inr (collect, info) \<Longrightarrow> backupFile w = None \<Longrightarrow>
   preparePrerequisites w nca =
     (None, nca\<lparr>executablePath := ''/usr/bin/npm'', npmVersion := Some [6, 14, 8],
                jsonOutput := (v \<noteq> ''false''), workingDirectory := dir,
                npmAuth := auth, registry := reg, collectBuildInfo := collect,
                packageInfo := info, effects := effects nca @ [BackupNpmrc]\<rparr>)"
  by (simp add: preparePrerequisites_def setNpmExecutable_def validateNpmVersion_def
      setJsonOutput_def setArtifactoryAuth_def Compare_def minSupportedNpmVersion_def)

text \<open>
  C7. When restoring the project's \<open>.npmrc\<close> fails after an earlier error, the error
  returned is a new one whose message holds the message of the restoration failure
  and the message of the earlier error; when restoring succeeds, the earlier error is
  returned as it is. The command restores on both paths on which an error occurs while
  the file is replaced: an error of \<open>createTempNpmrc\<close> and an error of
  \<open>runInstallOrCi\<close>.
\<close>

theorem C7_double_failure:
  "(\<forall>w err nca restoreErr.
      restoreNpmrcFunc w = Some restoreErr \<longrightarrow>
      fst (restoreNpmrcAndError w err nca) =
        Some (Failure (''Two errors occurred:'' @ newline @ '' '' @ Error restoreErr @
                       newline @ '' '' @ Error err)) \<and>
      Contains (''Two errors occurred:'' @ newline @ '' '' @ Error restoreErr @
                newline @ '' '' @ Error err) (Error restoreErr) \<and>
      Contains (''Two errors occurred:'' @ newline @ '' '' @ Error restoreErr @
                newline @ '' '' @ Error err) (Error err)) \<and>
   (\<forall>w err nca. restoreNpmrcFunc w = None \<longrightarrow> fst (restoreNpmrcAndError w err nca) = Some err) \<and>
   (\<forall>w nca err.
      fst (preparePrerequisites w nca) = None \<and>
      (fst (createTempNpmrc w (snd (preparePrerequisites w nca))) = Some err \<or>
       fst (createTempNpmrc w (snd (preparePrerequisites w nca))) = None \<and>
       fst (runInstallOrCi w (snd (createTempNpmrc w (snd (preparePrerequisites w nca))))) =
         Some err) \<longrightarrow>
      fst (run w nca) =
        (case restoreNpmrcFunc w of
           None \<Rightarrow> Some err
         | Some restoreErr \<Rightarrow>
             Some (Failure (''Two errors occurred:'' @ newline @ '' '' @ Error restoreErr @
                            newline @ '' '' @ Error err))) \<and>
      RestoreNpmrc \<in> set (effects (snd (run w nca))))"
proof (intro conjI allI impI)
  fix w :: world and err and nca :: NpmCommandArgs and restoreErr
  assume r: "restoreNpmrcFunc w = Some restoreErr"
  then show "fst (restoreNpmrcAndError w err nca) =
        Some (Failure (''Two errors occurred:'' @ newline @ '' '' @ Error restoreErr @
                       newline @ '' '' @ Error err))"
    by (simp add: restoreNpmrcAndError_fst twoErrors_def)
  show "Contains (''Two errors occurred:'' @ newline @ '' '' @ Error restoreErr @
                newline @ '' '' @ Error err) (Error restoreErr)"
    using twoErrors_Contains(1) [of restoreErr err] by (simp only: Error_twoErrors)
  show "Contains (''Two errors occurred:'' @ newline @ '' '' @ Error restoreErr @
                newline @ '' '' @ Error err) (Error err)"
    using twoErrors_Contains(2) [of restoreErr err] by (simp only: Error_twoErrors)
next
  fix w :: world and err and nca :: NpmCommandArgs
  assume "restoreNpmrcFunc w = None"
  then show "fst (restoreNpmrcAndError w err nca) = Some err"
    by (simp add: restoreNpmrcAndError_fst)
next
  fix w :: world and nca :: NpmCommandArgs and err
  assume a: "fst (preparePrerequisites w nca) = None \<and>
      (fst (createTempNpmrc w (snd (preparePrerequisites w nca))) = Some err \<or>
       fst (createTempNpmrc w (snd (preparePrerequisites w nca))) = None \<and>
       fst (runInstallOrCi w (snd (createTempNpmrc w (snd (preparePrerequisites w nca))))) =
         Some err)"
  then obtain nca' where r: "run w nca = restoreNpmrcAndError w err nca'"
    using run_createTempNpmrc_fail [of w nca err] run_runInstallOrCi_fail [of w nca err]
    by blast
  show "fst (run w nca) =
        (case restoreNpmrcFunc w of
           None \<Rightarrow> Some err
         | Some restoreErr \<Rightarrow>
             Some (Failure (''Two errors occurred:'' @ newline @ '' '' @ Error restoreErr @
                            newline @ '' '' @ Error err)))"
    by (simp add: r restoreNpmrcAndError_fst twoErrors_def split: option.splits)
  show "RestoreNpmrc \<in> set (effects (snd (run w nca)))"
    by (simp add: r restoreNpmrcAndError_effects)
qed

lemma failingWorld_steps:
  "fst (preparePrerequisites failingWorld installCommand) = None"
  "fst (createTempNpmrc failingWorld (snd (preparePrerequisites failingWorld installCommand))) = None"
  "fst (runInstallOrCi failingWorld
     (snd (createTempNpmrc failingWorld (snd (preparePrerequisites failingWorld installCommand))))) =
     Some (Failure ''exit status 1'')"
proof -
  show "fst (preparePrerequisites failingWorld installCommand) = None"
    by (simp add: sample_prerequisites failingWorld_def runWorld_def sampleWorld_def)
  show "fst (createTempNpmrc failingWorld (snd (preparePrerequisites failingWorld installCommand))) = None"
    by (simp add: createTempNpmrc_fst failingWorld_def runWorld_def sampleWorld_def
        Scan_productionDump)
  show "fst (runInstallOrCi failingWorld
     (snd (createTempNpmrc failingWorld (snd (preparePrerequisites failingWorld installCommand))))) =
     Some (Failure ''exit status 1'')"
    by (simp add: runInstallOrCi_fst failingWorld_def)
qed

theorem C7_double_failure_witness:
  "restoreNpmrcFunc failingWorld = Some (Failure ''permission denied'') \<and>
   fst (preparePrerequisites failingWorld installCommand) = None \<and>
   fst (run failingWorld installCommand) =
     Some (Failure (''Two errors occurred:'' @ newline @ '' permission denied'' @ newline @
                    '' exit status 1''))"
proof -
  have r: "restoreNpmrcFunc failingWorld = Some (Failure ''permission denied'')"
    by (simp add: failingWorld_def)
  have h: "fst (preparePrerequisites failingWorld installCommand) = None \<and>
      (fst (createTempNpmrc failingWorld (snd (preparePrerequisites failingWorld installCommand))) =
         Some (Failure ''exit status 1'') \<or>
       fst (createTempNpmrc failingWorld (snd (preparePrerequisites failingWorld installCommand))) =
         None \<and>
       fst (runInstallOrCi failingWorld (snd (createTempNpmrc failingWorld
              (snd (preparePrerequisites failingWorld installCommand))))) =
         Some (Failure ''exit status 1''))"
    by (simp add: failingWorld_steps)
  from C7_double_failure [THEN conjunct2, THEN conjunct2, rule_format, OF h] r h
  show ?thesis by simp
qed

lemma compareTokens_nil_le: "compareTokens [] v \<le> 0"
  by (induction v) auto

lemma compareTokens_nil_ge: "compareTokens v [] \<ge> 0"
  by (induction v) auto

lemma compareTokens_lower: "compareTokens b a > 0 \<longleftrightarrow> lowerVersion a b"
proof (induction a b rule: lowerVersion.induct)
  case 1
  show ?case by simp
next
  case (2 a as)
  have "compareTokens [] as \<le> 0" by (rule compareTokens_nil_le)
  then show ?case by auto
next
  case (3 b bs)
  then show ?case by auto
next
  case (4 a as b bs)
  then show ?case by auto
qed

lemma Compare_lower: "Compare v minV > 0 \<longleftrightarrow> lowerVersion v minV"
  by (simp add: Compare_def compareTokens_lower)

lemma validate_lower:
  assumes "npmVersionOutput w = Inr v" "lowerVersion v minSupportedNpmVersion"
  shows "validateNpmVersion w nca =
     (Some (Failure (''JFrog CLI npm '' @ command nca @
               '' command requires npm client version 5.4.0 or higher'')), nca)"
  using assms by (simp add: validateNpmVersion_def Compare_lower)

lemma validate_not_lower:
  assumes "npmVersionOutput w = Inr v" "\<not> lowerVersion v minSupportedNpmVersion"
  shows "validateNpmVersion w nca = (None, nca\<lparr>npmVersion := Some v\<rparr>)"
  using assms by (simp add: validateNpmVersion_def Compare_lower)

lemma run_validate_fail:
  assumes "fst (setNpmExecutable w nca) = None"
    "fst (validateNpmVersion w (snd (setNpmExecutable w nca))) = Some err"
  shows "fst (run w nca) = Some err" "effects (snd (run w nca)) = effects nca"
proof -
  have p: "preparePrerequisites w nca = validateNpmVersion w (snd (setNpmExecutable w nca))"
    by (rule prerequisites_validate_fail [OF assms])
  with assms(2) have r: "run w nca = validateNpmVersion w (snd (setNpmExecutable w nca))"
    using run_prerequisites_fail [of w nca err] by simp
  show "fst (run w nca) = Some err" by (simp add: r assms(2))
  show "effects (snd (run w nca)) = effects nca"
    by (simp add: r validateNpmVersion_effects setNpmExecutable_effects)
qed

text \<open>
  C8. With the executable found, the version that \<open>npm\<close> reports decides: when it is
  lower than 5.4.0 the check returns the error that asks for 5.4.0 or higher, and the
  command returns that error with no effect made; when it is 5.4.0 or higher the
  check passes and keeps the version. For a version of three components, lower than
  5.4.0 means a major component below 5, or 5 with a minor component below 4.
\<close>

theorem C8_version_gate:
  "(\<forall>w nca v.
      npmVersionOutput w = Inr v \<and> lowerVersion v minSupportedNpmVersion \<longrightarrow>
      fst (validateNpmVersion w nca) =
        Some (Failure (''JFrog CLI npm '' @ command nca @
                '' command requires npm client version 5.4.0 or higher'')) \<and>
      (fst (setNpmExecutable w nca) = None \<longrightarrow>
         fst (run w nca) =
           Some (Failure (''JFrog CLI npm '' @ command nca @
                   '' command requires npm client version 5.4.0 or higher'')) \<and>
         effects (snd (run w nca)) = effects nca)) \<and>
   (\<forall>w nca v.
      npmVersionOutput w = Inr v \<and> \<not> lowerVersion v minSupportedNpmVersion \<longrightarrow>
      fst (validateNpmVersion w nca) = None \<and>
      npmVersion (snd (validateNpmVersion w nca)) = Some v) \<and>
   minSupportedNpmVersion = [5, 4, 0] \<and>
   (\<forall>major minor patch.
      lowerVersion [major, minor, patch] minSupportedNpmVersion \<longleftrightarrow>
        major < 5 \<or> major = 5 \<and> minor < 4)"
proof (intro conjI allI impI)
  fix w :: world and nca :: NpmCommandArgs and v
  assume a: "npmVersionOutput w = Inr v \<and> lowerVersion v minSupportedNpmVersion"
  then have v: "npmVersionOutput w = Inr v" and l: "lowerVersion v minSupportedNpmVersion"
    by blast+
  show "fst (validateNpmVersion w nca) =
        Some (Failure (''JFrog CLI npm '' @ command nca @
                '' command requires npm client version 5.4.0 or higher''))"
    by (simp add: validate_lower [OF v l])
  assume e: "fst (setNpmExecutable w nca) = None"
  have f: "fst (validateNpmVersion w (snd (setNpmExecutable w nca))) =
        Some (Failure (''JFrog CLI npm '' @ command nca @
                '' command requires npm client version 5.4.0 or higher''))"
    by (simp add: validate_lower [OF v l] setNpmExecutable_command)
  show "fst (run w nca) =
           Some (Failure (''JFrog CLI npm '' @ command nca @
                   '' command requires npm client version 5.4.0 or higher''))"
    by (rule run_validate_fail(1) [OF e f])
  show "effects (snd (run w nca)) = effects nca"
    by (rule run_validate_fail(2) [OF e f])
next
  fix w :: world and nca :: NpmCommandArgs and v
  assume a: "npmVersionOutput w = Inr v \<and> \<not> lowerVersion v minSupportedNpmVersion"
  then have v: "npmVersionOutput w = Inr v" and l: "\<not> lowerVersion v minSupportedNpmVersion"
    by blast+
  show "fst (validateNpmVersion w nca) = None"
    by (simp add: validate_not_lower [OF v l])
  show "npmVersion (snd (validateNpmVersion w nca)) = Some v"
    by (simp add: validate_not_lower [OF v l])
next
  show "minSupportedNpmVersion = [5, 4, 0]" by (simp add: minSupportedNpmVersion_def)
next
  fix major minor patch
  show "lowerVersion [major, minor, patch] minSupportedNpmVersion \<longleftrightarrow>
        major < 5 \<or> major = 5 \<and> minor < 4"
    by (auto simp: minSupportedNpmVersion_def)
qed

theorem C8_version_gate_witness:
  "npmVersionOutput oldNpmWorld = Inr [5, 3, 9] \<and> lowerVersion [5, 3, 9] minSupportedNpmVersion \<and>
   fst (setNpmExecutable oldNpmWorld installCommand) = None \<and>
   fst (run oldNpmWorld installCommand) =
     Some (Failure ''JFrog CLI npm install command requires npm client version 5.4.0 or higher'') \<and>
   effects (snd (run oldNpmWorld installCommand)) = [] \<and>
   npmVersionOutput runWorld = Inr [6, 14, 8] \<and> \<not> lowerVersion [6, 14, 8] minSupportedNpmVersion \<and>
   fst (validateNpmVersion runWorld installCommand) = None"
proof -
  have h: "npmVersionOutput oldNpmWorld = Inr [5, 3, 9] \<and>
      lowerVersion [5, 3, 9] minSupportedNpmVersion"
    by (simp add: oldNpmWorld_def minSupportedNpmVersion_def)
  have e: "fst (setNpmExecutable oldNpmWorld installCommand) = None"
    by (simp add: setNpmExecutable_def oldNpmWorld_def runWorld_def sampleWorld_def)
  have g: "npmVersionOutput runWorld = Inr [6, 14, 8] \<and>
      \<not> lowerVersion [6, 14, 8] minSupportedNpmVersion"
    by (simp add: runWorld_def sampleWorld_def minSupportedNpmVersion_def)
  have c: "command installCommand = ''install''" "effects installCommand = []"
    by (simp_all add: installCommand_def freshCommand_def)
  note t = C8_version_gate
  from t [THEN conjunct1, rule_format, OF h, of installCommand, THEN conjunct2, rule_format, OF e]
    t [THEN conjunct2, THEN conjunct1, rule_format, OF g, of installCommand] h e g c
  show ?thesis by simp
qed

lemma prerequisites_fields:
  "npmArgs (snd (preparePrerequisites w nca)) = npmArgs nca"
  "command (snd (preparePrerequisites w nca)) = command nca"
  "dependencies (snd (preparePrerequisites w nca)) = dependencies nca"
  by (auto simp: preparePrerequisites_def andThen_def setNpmExecutable_def validateNpmVersion_def
      setJsonOutput_def setArtifactoryAuth_def split: sum.splits prod.splits option.splits)

lemma prerequisites_effects:
  "set (effects (snd (preparePrerequisites w nca))) \<subseteq> set (effects nca) \<union> {BackupNpmrc}"
  by (auto simp: preparePrerequisites_def andThen_def setNpmExecutable_def validateNpmVersion_def
      setJsonOutput_def setArtifactoryAuth_def split: sum.splits prod.splits option.splits if_splits)

lemma createTempNpmrc_effects:
  "set (effects (snd (createTempNpmrc w nca))) \<subseteq>
     set (effects nca) \<union> {RemoveNpmrc} \<union> range WriteNpmrc"
proof -
  obtain r where r: "snd (prepareConfigData (getConfigList w) nca) = nca\<lparr>typeRestriction := r\<rparr>"
    using prepareConfigData_only_restriction by blast
  obtain c n1 where p: "prepareConfigData (getConfigList w) nca = (c, n1)"
    by (cases "prepareConfigData (getConfigList w) nca")
  with r have n1: "n1 = nca\<lparr>typeRestriction := r\<rparr>" by simp
  show ?thesis
    by (auto simp: createTempNpmrc_def removeNpmrcIfExists_def p n1 andThen_def
        split: sum.splits statResult.splits option.splits)
qed

lemma runInstallOrCi_skips:
  assumes "collectBuildInfo nca" "\<exists>arg \<in> set (npmArgs nca). \<not> HasPrefix arg ''-''"
  shows "runInstallOrCi w nca =
     (runCmd w, nca\<lparr>collectBuildInfo := False,
                    effects := effects nca @ [RunNpm (command nca # filterFlags (npmArgs nca))]\<rparr>)"
proof -
  from assms(2) have "filterFlags (npmArgs nca) \<noteq> []"
    by (auto simp: filterFlags_def filter_empty_conv)
  with assms(1) show ?thesis by (simp add: runInstallOrCi_def Let_def)
qed

lemma run_skips_build_info:
  assumes p: "fst (preparePrerequisites w nca) = None"
    and c: "fst (createTempNpmrc w (snd (preparePrerequisites w nca))) = None"
    and b: "collectBuildInfo (snd (preparePrerequisites w nca))"
    and a: "\<exists>arg \<in> set (npmArgs nca). \<not> HasPrefix arg ''-''"
  shows "effects (snd (run w nca)) =
           effects (snd (createTempNpmrc w (snd (preparePrerequisites w nca)))) @
           [RunNpm (command nca # filterFlags (npmArgs nca)), RestoreNpmrc]"
    and "\<not> collectBuildInfo (snd (run w nca))"
    and "dependencies (snd (run w nca)) = dependencies nca"
    and "runCmd w = None \<Longrightarrow> fst (run w nca) = restoreNpmrcFunc w"
proof -
  let ?n1 = "snd (preparePrerequisites w nca)"
  let ?n2 = "snd (createTempNpmrc w ?n1)"
  let ?n3 = "?n2\<lparr>collectBuildInfo := False,
                 effects := effects ?n2 @ [RunNpm (command nca # filterFlags (npmArgs nca))]\<rparr>"
  have b2: "collectBuildInfo ?n2" using b by (simp add: createTempNpmrc_fields)
  have a2: "\<exists>arg \<in> set (npmArgs ?n2). \<not> HasPrefix arg ''-''"
    using a by (simp add: createTempNpmrc_fields prerequisites_fields)
  have i: "runInstallOrCi w ?n2 = (runCmd w, ?n3)"
    using runInstallOrCi_skips [OF b2 a2, of w]
    by (simp add: createTempNpmrc_fields prerequisites_fields)
  have d3: "dependencies ?n3 = dependencies nca"
    by (simp add: createTempNpmrc_fields prerequisites_fields)
  have r: "snd (run w nca) = ?n3\<lparr>effects := effects ?n3 @ [RestoreNpmrc]\<rparr> \<and>
      (runCmd w = None \<longrightarrow> fst (run w nca) = restoreNpmrcFunc w)"
  proof (cases "runCmd w")
    case None
    with i have "fst (runInstallOrCi w ?n2) = None" "\<not> collectBuildInfo (snd (runInstallOrCi w ?n2))"
      by simp_all
    from run_installed [OF p c this] i None show ?thesis
      by (simp add: callRestoreNpmrcFunc_def)
  next
    case (Some err)
    with i have "fst (runInstallOrCi w ?n2) = Some err" by simp
    from run_runInstallOrCi_fail [OF p c this] i Some show ?thesis
      by (simp add: restoreNpmrcAndError_def callRestoreNpmrcFunc_def split: option.splits)
  qed
  from r show "effects (snd (run w nca)) =
           effects ?n2 @ [RunNpm (command nca # filterFlags (npmArgs nca)), RestoreNpmrc]"
    by simp
  from r show "\<not> collectBuildInfo (snd (run w nca))" by simp
  from r d3 show "dependencies (snd (run w nca)) = dependencies nca" by simp
  from r show "runCmd w = None \<Longrightarrow> fst (run w nca) = restoreNpmrcFunc w" by simp
qed

lemma run_json_fail:
  assumes "fst (setNpmExecutable w nca) = None"
    "fst (validateNpmVersion w (snd (setNpmExecutable w nca))) = None"
    "fst (setJsonOutput w (snd (validateNpmVersion w (snd (setNpmExecutable w nca))))) = Some err"
  shows "fst (run w nca) = Some err" "effects (snd (run w nca)) = effects nca"
proof -
  let ?j = "setJsonOutput w (snd (validateNpmVersion w (snd (setNpmExecutable w nca))))"
  have p: "preparePrerequisites w nca = ?j"
    by (rule prerequisites_json_fail [OF assms])
  with assms(3) have r: "run w nca = ?j"
    using run_prerequisites_fail [of w nca err] by simp
  show "fst (run w nca) = Some err" by (simp add: r assms(3))
  show "effects (snd (run w nca)) = effects nca"
    by (simp add: r setJsonOutput_effects validateNpmVersion_effects setNpmExecutable_effects)
qed

lemma setJsonOutput_Inr:
  "configGetJson w = Inr v \<Longrightarrow>
   setJsonOutput w nca = (None, nca\<lparr>jsonOutput := (v \<noteq> ''false'')\<rparr>)"
  by (simp add: setJsonOutput_def)

lemma setJsonOutput_Inl: "configGetJson w = Inl err \<Longrightarrow> setJsonOutput w nca = (Some err, nca)"
  by (simp add: setJsonOutput_def)

text \<open>
  C9 (amended). A \<open>json\<close> value that is not a boolean is no error: whatever the
  query returns, \<open>setJsonOutput\<close> succeeds and turns JSON output on unless the value
  is \<open>false\<close>. Only a failure of the query itself is fatal: with the executable and
  the version accepted, the command returns that error and has made no effect.
\<close>

theorem C9_json_output:
  "(\<forall>w nca v.
      configGetJson w = Inr v \<longrightarrow>
      fst (setJsonOutput w nca) = None \<and>
      jsonOutput (snd (setJsonOutput w nca)) = (v \<noteq> ''false'')) \<and>
   (\<forall>w nca err.
      configGetJson w = Inl err \<longrightarrow>
      fst (setJsonOutput w nca) = Some err \<and>
      (fst (setNpmExecutable w nca) = None \<and>
       fst (validateNpmVersion w (snd (setNpmExecutable w nca))) = None \<longrightarrow>
       fst (run w nca) = Some err \<and> effects (snd (run w nca)) = effects nca))"
proof (intro conjI allI impI)
  fix w :: world and nca :: NpmCommandArgs and v
  assume v: "configGetJson w = Inr v"
  show "fst (setJsonOutput w nca) = None" by (simp add: setJsonOutput_Inr [OF v])
  show "jsonOutput (snd (setJsonOutput w nca)) = (v \<noteq> ''false'')"
    by (simp add: setJsonOutput_Inr [OF v])
next
  fix w :: world and nca :: NpmCommandArgs and err
  assume e: "configGetJson w = Inl err"
  show "fst (setJsonOutput w nca) = Some err" by (simp add: setJsonOutput_Inl [OF e])
  assume a: "fst (setNpmExecutable w nca) = None \<and>
       fst (validateNpmVersion w (snd (setNpmExecutable w nca))) = None"
  have j: "fst (setJsonOutput w (snd (validateNpmVersion w (snd (setNpmExecutable w nca))))) =
      Some err" by (simp add: setJsonOutput_Inl [OF e])
  from a show "fst (run w nca) = Some err"
    by (intro run_json_fail(1) [OF _ _ j]) simp_all
  from a show "effects (snd (run w nca)) = effects nca"
    by (intro run_json_fail(2) [OF _ _ j]) simp_all
qed

theorem C9_json_output_witness:
  "configGetJson jsonQueryFails = Inl (Failure ''npm config get json: exit status 1'') \<and>
   fst (setNpmExecutable jsonQueryFails installCommand) = None \<and>
   fst (validateNpmVersion jsonQueryFails (snd (setNpmExecutable jsonQueryFails installCommand)))
     = None \<and>
   fst (run jsonQueryFails installCommand) =
     Some (Failure ''npm config get json: exit status 1'') \<and>
   effects (snd (run jsonQueryFails installCommand)) = [] \<and>
   configGetJson nonBooleanWorld = Inr ''yes'' \<and>
   fst (setJsonOutput nonBooleanWorld installCommand) = None \<and>
   jsonOutput (snd (setJsonOutput nonBooleanWorld installCommand))"
proof -
  have q: "configGetJson jsonQueryFails = Inl (Failure ''npm config get json: exit status 1'')"
    by (simp add: jsonQueryFails_def)
  have h: "fst (setNpmExecutable jsonQueryFails installCommand) = None \<and>
      fst (validateNpmVersion jsonQueryFails (snd (setNpmExecutable jsonQueryFails installCommand)))
        = None"
    by (simp add: setNpmExecutable_def validateNpmVersion_def Compare_def
        minSupportedNpmVersion_def jsonQueryFails_def runWorld_def sampleWorld_def)
  have y: "configGetJson nonBooleanWorld = Inr ''yes''" by (simp add: nonBooleanWorld_def)
  have e: "effects installCommand = []" by (simp add: installCommand_def freshCommand_def)
  note t = C9_json_output
  from t [THEN conjunct2, rule_format, OF q, of installCommand, THEN conjunct2, rule_format, OF h]
    t [THEN conjunct1, rule_format, OF y, of installCommand] q h y e
  show ?thesis by simp
qed

lemma nonBoolean_prerequisites:
  "preparePrerequisites nonBooleanWorld installCommand =
     (None, installCommand\<lparr>executablePath := ''/usr/bin/npm'', npmVersion := Some [6, 14, 8],
                jsonOutput := True, workingDirectory := ''/project'',
                npmAuth := ''_auth = secret'', registry := ''https://acme/api/npm/npm-repo/'',
                collectBuildInfo := False, packageInfo := [],
                effects := effects installCommand @ [BackupNpmrc]\<rparr>)"
  using sample_prerequisites [of nonBooleanWorld "''yes''" "''/project''" "''_auth = secret''"
      "''https://acme/api/npm/npm-repo/''" False "[]" installCommand]
  by (simp add: nonBooleanWorld_def runWorld_def sampleWorld_def)

theorem C9_nonboolean_json_counterexample:
  "configGetJson nonBooleanWorld = Inr ''yes'' \<and>
   fst (preparePrerequisites nonBooleanWorld installCommand) = None \<and>
   jsonOutput (snd (preparePrerequisites nonBooleanWorld installCommand)) \<and>
   effects (snd (preparePrerequisites nonBooleanWorld installCommand)) = [BackupNpmrc] \<and>
   fst (run nonBooleanWorld installCommand) = None \<and>
   RunNpm [''install''] \<in> set (effects (snd (run nonBooleanWorld installCommand)))"
proof -
  let ?n1 = "snd (preparePrerequisites nonBooleanWorld installCommand)"
  let ?n2 = "snd (createTempNpmrc nonBooleanWorld ?n1)"
  have p: "fst (preparePrerequisites nonBooleanWorld installCommand) = None"
    by (simp add: nonBoolean_prerequisites)
  have c: "fst (createTempNpmrc nonBooleanWorld ?n1) = None"
    by (simp add: createTempNpmrc_fst nonBooleanWorld_def runWorld_def sampleWorld_def
        Scan_productionDump)
  have n1: "collectBuildInfo ?n1 = False" "npmArgs ?n1 = npmArgs installCommand"
    "command ?n1 = command installCommand" "effects ?n1 = effects installCommand @ [BackupNpmrc]"
    "jsonOutput ?n1"
    by (simp_all add: nonBoolean_prerequisites)
  have ic: "npmArgs installCommand = [''--loglevel=silly'']" "command installCommand = ''install''"
    "effects installCommand = []"
    by (simp_all add: installCommand_def freshCommand_def)
  have b: "\<not> collectBuildInfo ?n2" "npmArgs ?n2 = [''--loglevel=silly'']" "command ?n2 = ''install''"
    by (simp_all add: createTempNpmrc_fields n1 ic)
  have f: "filterFlags [''--loglevel=silly''] = []"
    by (simp add: filterFlags_def HasPrefix_def)
  have i: "runInstallOrCi nonBooleanWorld ?n2 =
      (None, ?n2\<lparr>effects := effects ?n2 @ [RunNpm [''install'']]\<rparr>)"
    using b by (simp add: runInstallOrCi_def Let_def f nonBooleanWorld_def runWorld_def
        sampleWorld_def)
  have r: "run nonBooleanWorld installCommand =
      callRestoreNpmrcFunc nonBooleanWorld (?n2\<lparr>effects := effects ?n2 @ [RunNpm [''install'']]\<rparr>)"
    using run_installed [OF p c] i b(1) by simp
  have w: "restoreNpmrcFunc nonBooleanWorld = None" "configGetJson nonBooleanWorld = Inr ''yes''"
    by (simp_all add: nonBooleanWorld_def runWorld_def sampleWorld_def)
  show ?thesis
    using p n1(4,5) by (simp add: r callRestoreNpmrcFunc_def w ic)
qed

text \<open>
  C10. When build-info collection is on after the prerequisites and an argument of
  the command does not start with \<open>-\<close>, the command runs \<open>npm\<close> with the command name
  and those arguments, restores the \<open>.npmrc\<close> and stops: collection is off at the
  end, the map of dependencies is untouched, and no lookup, no saving and no listing of
  missing dependencies was made. When the install run succeeds the command returns
  what restoring returns, which is success when restoring succeeds.
\<close>

theorem C10_build_info_skipped:
  "\<forall>w nca.
     fst (preparePrerequisites w nca) = None \<and>
     fst (createTempNpmrc w (snd (preparePrerequisites w nca))) = None \<and>
     collectBuildInfo (snd (preparePrerequisites w nca)) \<and>
     (\<exists>arg \<in> set (npmArgs nca). \<not> HasPrefix arg ''-'') \<longrightarrow>
     effects (snd (run w nca)) =
       effects (snd (createTempNpmrc w (snd (preparePrerequisites w nca)))) @
       [RunNpm (command nca # filterFlags (npmArgs nca)), RestoreNpmrc] \<and>
     set (effects (snd (run w nca))) \<subseteq>
       set (effects nca) \<union> {BackupNpmrc, RemoveNpmrc, RestoreNpmrc} \<union>
       range WriteNpmrc \<union> range RunNpm \<and>
     \<not> collectBuildInfo (snd (run w nca)) \<and>
     dependencies (snd (run w nca)) = dependencies nca \<and>
     (runCmd w = None \<longrightarrow> fst (run w nca) = restoreNpmrcFunc w)"
proof (intro allI impI)
  fix w :: world and nca :: NpmCommandArgs
  assume a: "fst (preparePrerequisites w nca) = None \<and>
     fst (createTempNpmrc w (snd (preparePrerequisites w nca))) = None \<and>
     collectBuildInfo (snd (preparePrerequisites w nca)) \<and>
     (\<exists>arg \<in> set (npmArgs nca). \<not> HasPrefix arg ''-'')"
  then have p: "fst (preparePrerequisites w nca) = None"
    and c: "fst (createTempNpmrc w (snd (preparePrerequisites w nca))) = None"
    and b: "collectBuildInfo (snd (preparePrerequisites w nca))"
    and g: "\<exists>arg \<in> set (npmArgs nca). \<not> HasPrefix arg ''-''" by blast+
  note s = run_skips_build_info [OF p c b g]
  have sub: "set (effects (snd (run w nca))) \<subseteq>
       set (effects nca) \<union> {BackupNpmrc, RemoveNpmrc, RestoreNpmrc} \<union>
       range WriteNpmrc \<union> range RunNpm"
    using prerequisites_effects [of w nca]
      createTempNpmrc_effects [of w "snd (preparePrerequisites w nca)"]
    unfolding s(1) by auto
  from s sub show "effects (snd (run w nca)) =
       effects (snd (createTempNpmrc w (snd (preparePrerequisites w nca)))) @
       [RunNpm (command nca # filterFlags (npmArgs nca)), RestoreNpmrc] \<and>
     set (effects (snd (run w nca))) \<subseteq>
       set (effects nca) \<union> {BackupNpmrc, RemoveNpmrc, RestoreNpmrc} \<union>
       range WriteNpmrc \<union> range RunNpm \<and>
     \<not> collectBuildInfo (snd (run w nca)) \<and>
     dependencies (snd (run w nca)) = dependencies nca \<and>
     (runCmd w = None \<longrightarrow> fst (run w nca) = restoreNpmrcFunc w)"
    by blast
qed

theorem C10_build_info_skipped_witness:
  "fst (preparePrerequisites runWorld packageCommand) = None \<and>
   collectBuildInfo (snd (preparePrerequisites runWorld packageCommand)) \<and>
   filterFlags (npmArgs packageCommand) = [''lodash''] \<and>
   fst (run runWorld packageCommand) = None \<and>
   \<not> collectBuildInfo (snd (run runWorld packageCommand)) \<and>
   dependencies (snd (run runWorld packageCommand)) = Map.empty \<and>
   RunNpm [''install'', ''lodash''] \<in> set (effects (snd (run runWorld packageCommand)))"
proof -
  have pr: "preparePrerequisites runWorld packageCommand =
     (None, packageCommand\<lparr>executablePath := ''/usr/bin/npm'', npmVersion := Some [6, 14, 8],
                jsonOutput := False, workingDirectory := ''/project'',
                npmAuth := ''_auth = secret'', registry := ''https://acme/api/npm/npm-repo/'',
                collectBuildInfo := True, packageInfo := ''app@1.0.0'',
                effects := effects packageCommand @ [BackupNpmrc]\<rparr>)"
    using sample_prerequisites [of runWorld "''false''" "''/project''" "''_auth = secret''"
      "''https://acme/api/npm/npm-repo/''" True "''app@1.0.0''" packageCommand]
    by (simp add: runWorld_def sampleWorld_def)
  have f: "filterFlags (npmArgs packageCommand) = [''lodash'']"
    by (simp add: filterFlags_def HasPrefix_def packageCommand_def)
  have h1: "fst (preparePrerequisites runWorld packageCommand) = None"
    and h3: "collectBuildInfo (snd (preparePrerequisites runWorld packageCommand))"
    by (simp_all add: pr)
  have h2: "fst (createTempNpmrc runWorld (snd (preparePrerequisites runWorld packageCommand))) = None"
    by (simp add: createTempNpmrc_fst runWorld_def sampleWorld_def Scan_productionDump)
  have h4: "\<exists>arg \<in> set (npmArgs packageCommand). \<not> HasPrefix arg ''-''"
    by (simp add: packageCommand_def HasPrefix_def)
  from h1 h2 h3 h4 have h: "fst (preparePrerequisites runWorld packageCommand) = None \<and>
     fst (createTempNpmrc runWorld (snd (preparePrerequisites runWorld packageCommand))) = None \<and>
     collectBuildInfo (snd (preparePrerequisites runWorld packageCommand)) \<and>
     (\<exists>arg \<in> set (npmArgs packageCommand). \<not> HasPrefix arg ''-'')"
    by blast
  have w: "runCmd runWorld = None" "restoreNpmrcFunc runWorld = None"
    by (simp_all add: runWorld_def sampleWorld_def)
  have c: "command packageCommand = ''install''" "dependencies packageCommand = Map.empty"
    by (simp_all add: packageCommand_def freshCommand_def)
  from C10_build_info_skipped [rule_format, OF h] h f w c show ?thesis by simp
qed

end
